theory Spec2Isabelle
  imports Main "HOL-Library.Word"
begin

section \<open>The MarketResearch contract: data model\<close>

text \<open>
  The contract \<open>MarketResearch\<close> (Solidity 0.8, checked arithmetic) keeps one
  \<open>SurveyResponse\<close> per response id in a storage mapping and the ids, in the order
  of their submission, in a storage array. Solidity's value types are words of their
  width; a \<open>string\<close> key is a list of characters; \<open>bytes\<close> is a list of octets. The
  encrypted type \<open>euint32\<close> of the FHE library is a 32-byte handle.
\<close>

type_synonym uint32 = "32 word"
type_synonym uint256 = "256 word"
type_synonym address = "160 word"
type_synonym bytes32 = "256 word"
type_synonym bytes = "8 word list"
type_synonym euint32 = "256 word"
type_synonym externalEuint32 = "256 word"

record SurveyResponse =
  encryptedAnswer :: euint32
  publicMetadata :: uint256
  respondent :: address
  timestamp :: uint256
  decryptedAnswer :: uint32
  isVerified :: bool

text \<open>
  A storage mapping is total: a key that was never written reads as the all-zero
  struct.
\<close>

definition zeroResponse :: SurveyResponse where
  "zeroResponse =
     \<lparr>encryptedAnswer = 0, publicMetadata = 0, respondent = 0, timestamp = 0,
      decryptedAnswer = 0, isVerified = False\<rparr>"

datatype event =
    ResponseSubmitted string address
  | ResponseDecrypted string uint32

text \<open>
  The contract's storage (\<open>surveyResponses\<close>, \<open>responseIds\<close>) together with the log
  of the events emitted so far.
\<close>

record ledger =
  surveyResponses :: "string \<Rightarrow> SurveyResponse"
  responseIds :: "string list"
  emitted :: "event list"

definition initial :: ledger where
  "initial = \<lparr>surveyResponses = (\<lambda>_. zeroResponse), responseIds = [], emitted = []\<rparr>"

text \<open>
  A call either returns or reverts. A revert is a value: the reason string of a
  failed \<open>require\<close>, a compiler-inserted panic with its code (\<open>0x11\<close> arithmetic
  overflow, \<open>0x12\<close> division by zero, \<open>0x32\<close> index out of bounds), a revert inside
  a function of the FHE library (named), or the revert of \<open>abi.decode\<close> on a
  malformed payload.
\<close>

datatype error =
    Require string
  | Panic nat
  | LibraryRevert string
  | AbiDecodeRevert

text \<open>The names the specification gives to the contract's rejections.\<close>

abbreviation DuplicateId :: error where
  "DuplicateId \<equiv> Require ''Response already exists''"
abbreviation InvalidCiphertext :: error where
  "InvalidCiphertext \<equiv> Require ''Invalid encrypted input''"
abbreviation NotFound :: error where
  "NotFound \<equiv> Require ''Response does not exist''"
abbreviation AlreadyVerified :: error where
  "AlreadyVerified \<equiv> Require ''Response already verified''"
abbreviation ProofInvalid :: error where
  "ProofInvalid \<equiv> LibraryRevert ''FHE.checkSignatures''"
abbreviation NoVerifiedData :: error where
  "NoVerifiedData \<equiv> Require ''No verified responses''"

section \<open>What the contract takes from outside\<close>

text \<open>
  The functions of the imported FHE library are not part of the contract. Each is a
  parameter: \<open>fromExternal\<close> checks an input proof for the caller and returns the
  handle (\<open>None\<close>: the library reverts); \<open>allowThis\<close>, \<open>makePubliclyDecryptable\<close>
  and \<open>checkSignatures\<close> return nothing and revert on rejection (\<open>False\<close>).

  The contract tests whether a response exists with
  \<^verbatim>\<open>bytes(surveyResponses[responseId].respondent).length\<close>. Solidity defines the
  conversion \<open>bytes(.)\<close> for strings only, so the byte sequence of an address is a
  parameter as well, \<open>bytesOfAddress\<close>. The specification reads the test as
  "id already present" / "id unknown"; \<open>presence_test\<close> below states that reading:
  the sequence is empty exactly for the zero address, the value of a field that was
  never written.
\<close>

record fhe =
  fromExternal :: "address \<Rightarrow> externalEuint32 \<Rightarrow> bytes \<Rightarrow> euint32 option"
  isInitialized :: "euint32 \<Rightarrow> bool"
  allowThis :: "euint32 \<Rightarrow> bool"
  makePubliclyDecryptable :: "euint32 \<Rightarrow> bool"
  toBytes32 :: "euint32 \<Rightarrow> bytes32"
  checkSignatures :: "bytes32 list \<Rightarrow> bytes \<Rightarrow> bytes \<Rightarrow> bool"
  bytesOfAddress :: "address \<Rightarrow> bytes"

definition presence_test :: "fhe \<Rightarrow> bool" where
  "presence_test env = (\<forall>a. (length (bytesOfAddress env a) = 0) = (a = 0))"

text \<open>The transaction context a call reads: \<open>msg.sender\<close> and \<open>block.timestamp\<close>.\<close>

record callctx =
  msg_sender :: address
  block_timestamp :: uint256

section \<open>Checked arithmetic and decoding\<close>

text \<open>
  Solidity 0.8 checks \<open>+\<close> and \<open>++\<close> at the width of the operands and reverts with
  \<open>Panic(0x11)\<close> on overflow; \<open>/\<close> reverts with \<open>Panic(0x12)\<close> when the divisor is
  zero and truncates otherwise.
\<close>

definition checked_add :: "uint32 \<Rightarrow> uint32 \<Rightarrow> error + uint32" where
  "checked_add a b = (if unat a + unat b < 2 ^ 32 then Inr (a + b) else Inl (Panic 0x11))"

definition checked_div :: "uint32 \<Rightarrow> uint32 \<Rightarrow> error + uint32" where
  "checked_div a b = (if b = 0 then Inl (Panic 0x12) else Inr (a div b))"

text \<open>
  \<open>abi.decode(payload, (uint32))\<close>: the payload must hold at least one 32-byte slot;
  the first slot is read as a big-endian integer, which must fit 32 bits; bytes after
  the first slot are ignored. Anything else reverts.
\<close>

definition be_nat :: "bytes \<Rightarrow> nat" where
  "be_nat bs = foldl (\<lambda>acc b. 256 * acc + unat b) 0 bs"

definition abi_decode_uint32 :: "bytes \<Rightarrow> error + uint32" where
  "abi_decode_uint32 payload =
     (if length payload < 32 then Inl AbiDecodeRevert
      else if be_nat (take 32 payload) < 2 ^ 32 then Inr (of_nat (be_nat (take 32 payload)))
      else Inl AbiDecodeRevert)"

section \<open>The state-changing functions\<close>

text \<open>
  A function that changes storage returns the new ledger, or the revert; on a revert
  the EVM discards every write of the call, so the ledger the caller held stays
  the current one.
\<close>

definition submitResponse ::
  "fhe \<Rightarrow> callctx \<Rightarrow> string \<Rightarrow> externalEuint32 \<Rightarrow> bytes \<Rightarrow> uint256 \<Rightarrow> ledger \<Rightarrow> error + ledger" where
  "submitResponse env ctx responseId encAnswer inputProof metadata s =
     (if \<not> length (bytesOfAddress env (respondent (surveyResponses s responseId))) = 0
      then Inl (Require ''Response already exists'')
      else case fromExternal env (msg_sender ctx) encAnswer inputProof of
        None \<Rightarrow> Inl (LibraryRevert ''FHE.fromExternal'')
      | Some h \<Rightarrow>
          if \<not> isInitialized env h then Inl (Require ''Invalid encrypted input'')
          else
            let s1 = s\<lparr>surveyResponses := (surveyResponses s)(responseId :=
                       \<lparr>encryptedAnswer = h,
                        publicMetadata = metadata,
                        respondent = msg_sender ctx,
                        timestamp = block_timestamp ctx,
                        decryptedAnswer = 0,
                        isVerified = False\<rparr>)\<rparr>
            in if \<not> allowThis env (encryptedAnswer (surveyResponses s1 responseId))
               then Inl (LibraryRevert ''FHE.allowThis'')
               else if \<not> makePubliclyDecryptable env (encryptedAnswer (surveyResponses s1 responseId))
               then Inl (LibraryRevert ''FHE.makePubliclyDecryptable'')
               else Inr (s1\<lparr>responseIds := responseIds s1 @ [responseId],
                           emitted := emitted s1 @ [ResponseSubmitted responseId (msg_sender ctx)]\<rparr>))"

definition verifyDecryption ::
  "fhe \<Rightarrow> string \<Rightarrow> bytes \<Rightarrow> bytes \<Rightarrow> ledger \<Rightarrow> error + ledger" where
  "verifyDecryption env responseId abiEncodedClearAnswer decryptionProof s =
     (if \<not> length (bytesOfAddress env (respondent (surveyResponses s responseId))) > 0
      then Inl (Require ''Response does not exist'')
      else if isVerified (surveyResponses s responseId)
      then Inl (Require ''Response already verified'')
      else
        let cts = [toBytes32 env (encryptedAnswer (surveyResponses s responseId))]
        in if \<not> checkSignatures env cts abiEncodedClearAnswer decryptionProof
           then Inl (LibraryRevert ''FHE.checkSignatures'')
           else case abi_decode_uint32 abiEncodedClearAnswer of
             Inl e \<Rightarrow> Inl e
           | Inr decodedAnswer \<Rightarrow>
               Inr (s\<lparr>surveyResponses := (surveyResponses s)(responseId :=
                        (surveyResponses s responseId)
                          \<lparr>decryptedAnswer := decodedAnswer, isVerified := True\<rparr>),
                      emitted := emitted s @ [ResponseDecrypted responseId decodedAnswer]\<rparr>))"

section \<open>The views\<close>

definition getResponse ::
  "fhe \<Rightarrow> string \<Rightarrow> ledger \<Rightarrow> error + (uint256 \<times> address \<times> uint256 \<times> bool \<times> uint32)" where
  "getResponse env responseId s =
     (if \<not> length (bytesOfAddress env (respondent (surveyResponses s responseId))) > 0
      then Inl (Require ''Response does not exist'')
      else
        let response = surveyResponses s responseId
        in Inr (publicMetadata response, respondent response, timestamp response,
                isVerified response, decryptedAnswer response))"

definition getAllResponseIds :: "ledger \<Rightarrow> string list" where
  "getAllResponseIds s = responseIds s"

text \<open>
  The loops run over \<open>responseIds\<close> from index 0 upwards; the index is a \<open>uint256\<close>
  and cannot overflow below the array's length. Each loop is a recursion over the
  list of ids with the loop's variables as arguments (\<open>tot\<close> and \<open>cnt\<close> are
  the source's \<open>total\<close> and \<open>count\<close>). Gas is not modelled: a call
  never stops for lack of it.
\<close>

fun average_loop ::
  "(string \<Rightarrow> SurveyResponse) \<Rightarrow> string list \<Rightarrow> uint32 \<Rightarrow> uint32 \<Rightarrow> error + (uint32 \<times> uint32)" where
  "average_loop m [] tot cnt = Inr (tot, cnt)"
| "average_loop m (rid # rest) tot cnt =
     (if isVerified (m rid) then
        (case checked_add tot (decryptedAnswer (m rid)) of
           Inl e \<Rightarrow> Inl e
         | Inr tot1 \<Rightarrow>
             (case checked_add cnt 1 of
                Inl e \<Rightarrow> Inl e
              | Inr cnt1 \<Rightarrow> average_loop m rest tot1 cnt1))
      else average_loop m rest tot cnt)"

definition computeAverage :: "ledger \<Rightarrow> error + uint32" where
  "computeAverage s =
     (case average_loop (surveyResponses s) (responseIds s) 0 0 of
        Inl e \<Rightarrow> Inl e
      | Inr (tot, cnt) \<Rightarrow>
          if \<not> cnt > 0 then Inl (Require ''No verified responses'')
          else checked_div tot cnt)"

fun max_loop :: "(string \<Rightarrow> SurveyResponse) \<Rightarrow> string list \<Rightarrow> uint32 \<Rightarrow> uint32" where
  "max_loop m [] maxAnswer = maxAnswer"
| "max_loop m (rid # rest) maxAnswer =
     (if isVerified (m rid) \<and> decryptedAnswer (m rid) > maxAnswer
      then max_loop m rest (decryptedAnswer (m rid))
      else max_loop m rest maxAnswer)"

fun bucket_loop ::
  "(string \<Rightarrow> SurveyResponse) \<Rightarrow> uint32 \<Rightarrow> string list \<Rightarrow> uint32 list \<Rightarrow> error + uint32 list" where
  "bucket_loop m bucketSize [] distribution = Inr distribution"
| "bucket_loop m bucketSize (rid # rest) distribution =
     (if isVerified (m rid) then
        (case checked_div (decryptedAnswer (m rid)) bucketSize of
           Inl e \<Rightarrow> Inl e
         | Inr bucketIndex \<Rightarrow>
             if \<not> unat bucketIndex < length distribution then Inl (Panic 0x32)
             else
               (case checked_add (distribution ! unat bucketIndex) 1 of
                  Inl e \<Rightarrow> Inl e
                | Inr c \<Rightarrow>
                    bucket_loop m bucketSize rest (distribution[unat bucketIndex := c])))
      else bucket_loop m bucketSize rest distribution)"

definition computeDistribution :: "ledger \<Rightarrow> uint32 \<Rightarrow> error + uint32 list" where
  "computeDistribution s bucketSize =
     (let maxAnswer = max_loop (surveyResponses s) (responseIds s) 0
      in case checked_div maxAnswer bucketSize of
           Inl e \<Rightarrow> Inl e
         | Inr q \<Rightarrow>
             (case checked_add q 1 of
                Inl e \<Rightarrow> Inl e
              | Inr numBuckets \<Rightarrow>
                  bucket_loop (surveyResponses s) bucketSize (responseIds s)
                    (replicate (unat numBuckets) 0)))"

section \<open>Transactions and reachable ledgers\<close>

text \<open>
  The two state-changing entry points as calls. The EVM runs calls one at a time; a
  call that reverts leaves the ledger as it was (\<open>apply_call\<close>). A transaction's
  \<open>msg.sender\<close> is an account that signed it or a contract that exists, never the
  zero address (\<open>sender_nonzero\<close>). The reachable ledgers are those the deployed
  contract gets to from its empty storage by such calls.
\<close>

datatype call =
    Submit callctx string externalEuint32 bytes uint256
  | Verify string bytes bytes

fun exec :: "fhe \<Rightarrow> call \<Rightarrow> ledger \<Rightarrow> error + ledger" where
  "exec env (Submit ctx rid enc prf md) s = submitResponse env ctx rid enc prf md s"
| "exec env (Verify rid payload prf) s = verifyDecryption env rid payload prf s"

definition apply_call :: "fhe \<Rightarrow> ledger \<Rightarrow> call \<Rightarrow> ledger" where
  "apply_call env s c = (case exec env c s of Inl e \<Rightarrow> s | Inr s' \<Rightarrow> s')"

definition run :: "fhe \<Rightarrow> call list \<Rightarrow> ledger \<Rightarrow> ledger" where
  "run env cs s = foldl (apply_call env) s cs"

fun sender_nonzero :: "call \<Rightarrow> bool" where
  "sender_nonzero (Submit ctx rid enc prf md) = (msg_sender ctx \<noteq> 0)"
| "sender_nonzero (Verify rid payload prf) = True"

inductive reachable :: "fhe \<Rightarrow> ledger \<Rightarrow> bool" for env :: fhe where
  reachable_initial: "reachable env initial"
| reachable_call: "reachable env s \<Longrightarrow> sender_nonzero c \<Longrightarrow> reachable env (apply_call env s c)"

text \<open>The ids of the submissions that succeed when the calls run from \<open>s\<close>, in order.\<close>

fun submitted :: "fhe \<Rightarrow> call list \<Rightarrow> ledger \<Rightarrow> string list" where
  "submitted env [] s = []"
| "submitted env (Submit ctx rid enc prf md # cs) s =
     (case submitResponse env ctx rid enc prf md s of
        Inl e \<Rightarrow> submitted env cs s
      | Inr s' \<Rightarrow> rid # submitted env cs s')"
| "submitted env (Verify rid payload prf # cs) s =
     submitted env cs (apply_call env s (Verify rid payload prf))"

text \<open>
  How many of the calls are verifications of \<open>rid\<close> that succeed, when the calls run
  from \<open>s\<close>.
\<close>

fun verifications :: "fhe \<Rightarrow> string \<Rightarrow> call list \<Rightarrow> ledger \<Rightarrow> nat" where
  "verifications env rid [] s = 0"
| "verifications env rid (Submit ctx r enc prf md # cs) s =
     verifications env rid cs (apply_call env s (Submit ctx r enc prf md))"
| "verifications env rid (Verify r payload prf # cs) s =
     (case verifyDecryption env r payload prf s of
        Inl e \<Rightarrow> verifications env rid cs s
      | Inr s' \<Rightarrow> (if r = rid then 1 else 0) + verifications env rid cs s')"

section \<open>The specification's vocabulary\<close>

text \<open>
  A response is stored when the contract's own existence test finds it. The verified
  plaintexts are read off the records in the order of \<open>responseIds\<close>, as numbers.
\<close>

definition stored :: "fhe \<Rightarrow> ledger \<Rightarrow> string set" where
  "stored env s = {rid. length (bytesOfAddress env (respondent (surveyResponses s rid))) > 0}"

text \<open>
  What holds of every reachable ledger: the ids are pairwise distinct and are exactly
  the stored responses, a verified response is stored, and a response that is not
  verified has plaintext zero.
\<close>

definition ledger_inv :: "fhe \<Rightarrow> ledger \<Rightarrow> bool" where
  "ledger_inv env s =
     (distinct (responseIds s) \<and>
      set (responseIds s) = stored env s \<and>
      (\<forall>rid. isVerified (surveyResponses s rid) \<longrightarrow> rid \<in> stored env s) \<and>
      (\<forall>rid. \<not> isVerified (surveyResponses s rid) \<longrightarrow> decryptedAnswer (surveyResponses s rid) = 0))"

definition answers :: "(string \<Rightarrow> SurveyResponse) \<Rightarrow> string list \<Rightarrow> nat list" where
  "answers m ids = map (\<lambda>rid. unat (decryptedAnswer (m rid))) (filter (\<lambda>rid. isVerified (m rid)) ids)"

definition verifiedPlaintexts :: "ledger \<Rightarrow> nat list" where
  "verifiedPlaintexts s = answers (surveyResponses s) (responseIds s)"

definition maxVerifiedPlaintext :: "ledger \<Rightarrow> nat" where
  "maxVerifiedPlaintext s = Max (set (0 # verifiedPlaintexts s))"

definition in_bucket :: "nat \<Rightarrow> nat \<Rightarrow> nat list \<Rightarrow> nat" where
  "in_bucket b i vs = length (filter (\<lambda>v. v div b = i) vs)"

section \<open>Sample data\<close>

text \<open>
  An instance of the outside world in which every check of the library accepts a
  non-empty proof and an address converts to its 20 bytes, the zero address to none.
\<close>

definition sample_env :: fhe where
  "sample_env =
     \<lparr>fromExternal = (\<lambda>sender h prf. if prf = [] then None else Some h),
      isInitialized = (\<lambda>h. h \<noteq> 0),
      allowThis = (\<lambda>h. True),
      makePubliclyDecryptable = (\<lambda>h. True),
      toBytes32 = (\<lambda>h. h),
      checkSignatures = (\<lambda>cts clear prf. prf \<noteq> []),
      bytesOfAddress = (\<lambda>a. if a = 0 then [] else replicate 20 (0::8 word))\<rparr>"

definition alice :: callctx where
  "alice = \<lparr>msg_sender = 0xA11CE, block_timestamp = 1700000000\<rparr>"

text \<open>The ABI encoding of one \<open>uint32\<close>: a 32-byte slot, big-endian.\<close>

definition abi_encode_uint32 :: "uint32 \<Rightarrow> bytes" where
  "abi_encode_uint32 v =
     replicate 28 0 @ [ucast (drop_bit 24 v), ucast (drop_bit 16 v), ucast (drop_bit 8 v), ucast v]"

text \<open>
  Ledgers the contract reaches: four submissions of which three are verified with
  3, 5 and 10; five verified with 0, 4, 5, 9 and 12; two verified with
  \<open>2^32 - 1\<close> and 1; two submissions and no verification.
\<close>

definition survey :: ledger where
  "survey = run sample_env
     [Submit alice ''r1'' 11 [1] 0,
      Submit alice ''r2'' 12 [1] 0,
      Submit alice ''r3'' 13 [1] 0,
      Submit alice ''r4'' 14 [1] 0,
      Verify ''r1'' (abi_encode_uint32 3) [1],
      Verify ''r2'' (abi_encode_uint32 5) [1],
      Verify ''r4'' (abi_encode_uint32 10) [1]] initial"

definition histogram :: ledger where
  "histogram = run sample_env
     [Submit alice ''h1'' 21 [1] 0,
      Submit alice ''h2'' 22 [1] 0,
      Submit alice ''h3'' 23 [1] 0,
      Submit alice ''h4'' 24 [1] 0,
      Submit alice ''h5'' 25 [1] 0,
      Verify ''h1'' (abi_encode_uint32 0) [1],
      Verify ''h2'' (abi_encode_uint32 4) [1],
      Verify ''h3'' (abi_encode_uint32 5) [1],
      Verify ''h4'' (abi_encode_uint32 9) [1],
      Verify ''h5'' (abi_encode_uint32 12) [1]] initial"

definition overflowing :: ledger where
  "overflowing = run sample_env
     [Submit alice ''big'' 31 [1] 0,
      Submit alice ''one'' 32 [1] 0,
      Verify ''big'' (abi_encode_uint32 0xFFFFFFFF) [1],
      Verify ''one'' (abi_encode_uint32 1) [1]] initial"

definition pending :: ledger where
  "pending = run sample_env
     [Submit alice ''p1'' 41 [1] 0,
      Submit alice ''p2'' 42 [1] 0] initial"

section \<open>Checked 32-bit arithmetic\<close>

lemma checked_add_Inr: "unat a + unat b < 2 ^ 32 \<Longrightarrow> checked_add a b = Inr (a + b)"
  by (simp add: checked_add_def)

lemma checked_add_Inl: "\<not> unat a + unat b < 2 ^ 32 \<Longrightarrow> checked_add a b = Inl (Panic 0x11)"
  by (simp add: checked_add_def)

lemma unat_add32: "unat (a::uint32) + unat b < 2 ^ 32 \<Longrightarrow> unat (a + b) = unat a + unat b"
  by (simp add: unat_word_ariths)

lemma unat32_bound: "unat (a::uint32) < 4294967296"
  using unsigned_less [of a, where ?'a = nat] by simp

lemma unat_of_nat32: "n < 4294967296 \<Longrightarrow> unat (of_nat n :: uint32) = n"
  by (simp add: unat_of_nat)

lemma Max_insert_absorb:
  assumes "finite A" "y \<in> A" "(x::nat) \<le> y"
  shows "Max (insert x A) = Max A"
proof -
  have ne: "A \<noteq> {}" using assms(2) by auto
  have "y \<le> Max A" using assms(1,2) by simp
  then have "x \<le> Max A" using assms(3) by linarith
  then show ?thesis using assms(1) ne by (simp add: max_absorb2)
qed

lemma of_nat32_eq_0: "n < 4294967296 \<Longrightarrow> (of_nat n = (0::uint32)) = (n = 0)"
proof
  assume "of_nat n = (0::uint32)"
  then have "unat (of_nat n :: uint32) = 0" by simp
  moreover assume "n < 4294967296"
  ultimately show "n = 0" by (simp add: unat_of_nat32)
qed simp

lemma of_nat32_div:
  assumes "a < 4294967296" "b < 4294967296"
  shows "(of_nat a :: uint32) div of_nat b = of_nat (a div b)"
proof -
  have "a div b \<le> a" by simp
  then have "a div b < 4294967296" using assms(1) by linarith
  then have l: "unat (of_nat (a div b) :: uint32) = a div b" by (rule unat_of_nat32)
  have "unat ((of_nat a :: uint32) div of_nat b) = unat (of_nat a :: uint32) div unat (of_nat b :: uint32)"
    by (rule unat_div)
  then have r: "unat ((of_nat a :: uint32) div of_nat b) = a div b"
    using assms by (simp only: unat_of_nat32)
  show ?thesis unfolding word_unat_eq_iff using l r by (simp only:)
qed

section \<open>Reachable ledgers and their invariant\<close>

lemma submitResponse_Inr:
  assumes "submitResponse env ctx rid enc prf md s = Inr s'"
  shows "length (bytesOfAddress env (respondent (surveyResponses s rid))) = 0 \<and>
    (\<exists>h. fromExternal env (msg_sender ctx) enc prf = Some h \<and> isInitialized env h \<and>
       s' = s\<lparr>surveyResponses := (surveyResponses s)(rid :=
                 \<lparr>encryptedAnswer = h, publicMetadata = md, respondent = msg_sender ctx,
                  timestamp = block_timestamp ctx, decryptedAnswer = 0, isVerified = False\<rparr>),
               responseIds := responseIds s @ [rid],
               emitted := emitted s @ [ResponseSubmitted rid (msg_sender ctx)]\<rparr>)"
  using assms
  by (auto simp add: submitResponse_def Let_def split: option.splits if_splits)

lemma verifyDecryption_Inr:
  assumes "verifyDecryption env rid payload prf s = Inr s'"
  shows "length (bytesOfAddress env (respondent (surveyResponses s rid))) > 0 \<and>
    \<not> isVerified (surveyResponses s rid) \<and>
    checkSignatures env [toBytes32 env (encryptedAnswer (surveyResponses s rid))] payload prf \<and>
    (\<exists>v. abi_decode_uint32 payload = Inr v \<and>
       s' = s\<lparr>surveyResponses := (surveyResponses s)(rid :=
                 (surveyResponses s rid)\<lparr>decryptedAnswer := v, isVerified := True\<rparr>),
               emitted := emitted s @ [ResponseDecrypted rid v]\<rparr>)"
  using assms
  by (auto simp add: verifyDecryption_def Let_def split: sum.splits if_splits)

lemma presence_testD: "presence_test env \<Longrightarrow> (bytesOfAddress env a = []) = (a = 0)"
  by (simp add: presence_test_def)

lemma ledger_inv_initial: "presence_test env \<Longrightarrow> ledger_inv env initial"
  by (simp add: ledger_inv_def initial_def stored_def zeroResponse_def presence_testD)

lemma ledger_inv_submit:
  assumes pt: "presence_test env" and inv: "ledger_inv env s" and nz: "msg_sender ctx \<noteq> 0"
    and ok: "submitResponse env ctx rid enc prf md s = Inr s'"
  shows "ledger_inv env s'"
proof -
  from submitResponse_Inr [OF ok] obtain h where
    absent: "length (bytesOfAddress env (respondent (surveyResponses s rid))) = 0" and
    s': "s' = s\<lparr>surveyResponses := (surveyResponses s)(rid :=
                 \<lparr>encryptedAnswer = h, publicMetadata = md, respondent = msg_sender ctx,
                  timestamp = block_timestamp ctx, decryptedAnswer = 0, isVerified = False\<rparr>),
               responseIds := responseIds s @ [rid],
               emitted := emitted s @ [ResponseSubmitted rid (msg_sender ctx)]\<rparr>"
    by blast
  have notin: "rid \<notin> stored env s" using absent by (simp add: stored_def)
  have st: "stored env s' = insert rid (stored env s)"
    using nz pt by (auto simp add: s' stored_def presence_testD)
  show ?thesis
    using inv notin unfolding ledger_inv_def st
    by (auto simp add: s')
qed

lemma ledger_inv_verify:
  assumes inv: "ledger_inv env s"
    and ok: "verifyDecryption env rid payload prf s = Inr s'"
  shows "ledger_inv env s'"
proof -
  from verifyDecryption_Inr [OF ok] obtain v where
    present: "length (bytesOfAddress env (respondent (surveyResponses s rid))) > 0" and
    s': "s' = s\<lparr>surveyResponses := (surveyResponses s)(rid :=
                 (surveyResponses s rid)\<lparr>decryptedAnswer := v, isVerified := True\<rparr>),
               emitted := emitted s @ [ResponseDecrypted rid v]\<rparr>"
    by blast
  have st: "stored env s' = stored env s"
    by (auto simp add: s' stored_def)
  have "rid \<in> stored env s" using present by (simp add: stored_def)
  then show ?thesis
    using inv unfolding ledger_inv_def st
    by (auto simp add: s')
qed

lemma ledger_inv_apply_call:
  assumes "presence_test env" "ledger_inv env s" "sender_nonzero c"
  shows "ledger_inv env (apply_call env s c)"
proof (cases c)
  case (Submit ctx rid enc pf md)
  then show ?thesis using assms
    by (auto simp add: apply_call_def split: sum.splits intro: ledger_inv_submit)
next
  case (Verify rid payload pf)
  then show ?thesis using assms
    by (auto simp add: apply_call_def split: sum.splits intro: ledger_inv_verify)
qed

lemma reachable_inv:
  assumes "presence_test env" and "reachable env s"
  shows "ledger_inv env s"
  using assms(2)
proof (induction rule: reachable.induct)
  case reachable_initial
  show ?case by (rule ledger_inv_initial [OF assms(1)])
next
  case (reachable_call s c)
  then show ?case by (simp add: ledger_inv_apply_call [OF assms(1)])
qed

lemma run_Nil: "run env [] s = s"
  by (simp add: run_def)

lemma run_Cons: "run env (c # cs) s = run env cs (apply_call env s c)"
  by (simp add: run_def)

lemma reachable_run:
  "reachable env s \<Longrightarrow> list_all sender_nonzero cs \<Longrightarrow> reachable env (run env cs s)"
proof (induction cs arbitrary: s)
  case Nil
  then show ?case by (simp add: run_Nil)
next
  case (Cons c cs)
  then show ?case by (simp add: run_Cons reachable_call)
qed


lemma presence_test_sample: "presence_test sample_env"
  by (simp add: presence_test_def sample_env_def)

lemma reachable_sample:
  "reachable sample_env survey" "reachable sample_env histogram"
  "reachable sample_env overflowing" "reachable sample_env pending"
  unfolding survey_def histogram_def overflowing_def pending_def
  by (rule reachable_run [OF reachable_initial], simp add: alice_def)+

section \<open>Encoding, and the sample ledgers evaluated\<close>

lemma be_nat_zeros: "be_nat (replicate n 0 @ bs) = be_nat bs"
  by (induction n) (simp_all add: be_nat_def)

lemma be_nat4: "be_nat [a, b, c, d] = 256 * (256 * (256 * unat a + unat b) + unat c) + unat d"
  by (simp add: be_nat_def)

lemma be_nat_encode: "be_nat (abi_encode_uint32 v) =
   256 * (256 * (256 * unat (ucast (drop_bit 24 v) :: 8 word) + unat (ucast (drop_bit 16 v) :: 8 word))
     + unat (ucast (drop_bit 8 v) :: 8 word)) + unat (ucast v :: 8 word)"
  by (simp add: abi_encode_uint32_def be_nat_zeros be_nat4)

lemma length_encode: "length (abi_encode_uint32 v) = 32"
  by (simp add: abi_encode_uint32_def)

lemma decode_encode: "abi_decode_uint32 (abi_encode_uint32 v) =
   (if be_nat (abi_encode_uint32 v) < 4294967296
    then Inr (of_nat (be_nat (abi_encode_uint32 v))) else Inl AbiDecodeRevert)"
  by (simp add: abi_decode_uint32_def length_encode)

text \<open>Decoding undoes encoding, for every \<open>uint32\<close>.\<close>

lemma unat_byte: "unat (ucast (drop_bit k (v::uint32)) :: 8 word) = (unat v div 2 ^ k) mod 256"
proof -
  have "unat (ucast (drop_bit k v) :: 8 word) = take_bit 8 (unat (drop_bit k v))"
    by (simp add: unsigned_ucast_eq)
  also have "\<dots> = take_bit 8 (drop_bit k (unat v))" by (simp only: unat_drop_bit_eq)
  also have "\<dots> = (unat v div 2 ^ k) mod 256" by (simp add: take_bit_eq_mod drop_bit_eq_div)
  finally show ?thesis .
qed

lemma unat_byte0: "unat (ucast (v::uint32) :: 8 word) = unat v mod 256"
  by (simp add: unsigned_ucast_eq take_bit_eq_mod)

lemma split32:
  assumes "(n::nat) < 4294967296"
  shows "256 * (256 * (256 * ((n div 16777216) mod 256) + (n div 65536) mod 256) + (n div 256) mod 256) + n mod 256 = n"
proof -
  have d2: "n div 65536 = n div 256 div 256" by (simp add: div_mult2_eq [symmetric])
  have d3: "n div 16777216 = n div 256 div 256 div 256" by (simp add: div_mult2_eq [symmetric])
  have "n div 16777216 < 256" using assms by (simp add: div_less_iff_less_mult)
  then have top: "(n div 16777216) mod 256 = n div 256 div 256 div 256" by (simp add: d3)
  have "256 * (256 * (256 * (n div 256 div 256 div 256) + n div 256 div 256 mod 256) + n div 256 mod 256) + n mod 256 = n"
    by (simp only: mult_div_mod_eq)
  then show ?thesis by (simp only: top d2)
qed

lemma be_nat_encode_unat: "be_nat (abi_encode_uint32 v) = unat v"
proof -
  have "be_nat (abi_encode_uint32 v) =
     256 * (256 * (256 * ((unat v div 16777216) mod 256) + (unat v div 65536) mod 256)
       + (unat v div 256) mod 256) + unat v mod 256"
    using unat_byte [of 24 v] unat_byte [of 16 v] unat_byte [of 8 v]
    by (simp add: be_nat_encode unat_byte0)
  also have "\<dots> = unat v" by (rule split32 [OF unat32_bound])
  finally show ?thesis .
qed

lemma abi_roundtrip: "abi_decode_uint32 (abi_encode_uint32 v) = Inr v"
  by (simp add: decode_encode be_nat_encode_unat unat32_bound)

lemmas sample_run = run_def apply_call_def submitResponse_def verifyDecryption_def
  sample_env_def alice_def initial_def zeroResponse_def decode_encode be_nat_encode Let_def
  verifiedPlaintexts_def answers_def

lemma survey_plaintexts: "verifiedPlaintexts survey = [3, 5, 10]"
  by (simp add: survey_def sample_run)

lemma histogram_plaintexts: "verifiedPlaintexts histogram = [0, 4, 5, 9, 12]"
  by (simp add: histogram_def sample_run)

lemma overflowing_plaintexts: "verifiedPlaintexts overflowing = [4294967295, 1]"
  by (simp add: overflowing_def sample_run)

lemma pending_plaintexts: "verifiedPlaintexts pending = []"
  by (simp add: pending_def sample_run)

lemma initial_plaintexts: "verifiedPlaintexts initial = []"
  by (simp add: initial_def verifiedPlaintexts_def answers_def)

section \<open>The average\<close>

lemma answers_Nil: "answers m [] = []"
  by (simp add: answers_def)

lemma answers_Cons: "answers m (rid # rest) =
  (if isVerified (m rid) then unat (decryptedAnswer (m rid)) # answers m rest else answers m rest)"
  by (simp add: answers_def)

lemma average_loop_eq:
  "average_loop m ids t c =
     (if unat t + sum_list (answers m ids) < 2 ^ 32 \<and> unat c + length (answers m ids) < 2 ^ 32
      then Inr (t + of_nat (sum_list (answers m ids)), c + of_nat (length (answers m ids)))
      else Inl (Panic 0x11))"
proof (induction ids arbitrary: t c)
  case Nil
  show ?case by (simp add: answers_Nil unat32_bound)
next
  case (Cons rid rest)
  show ?case
  proof (cases "isVerified (m rid)")
    case False
    then show ?thesis by (simp add: answers_Cons Cons.IH)
  next
    case True
    let ?x = "decryptedAnswer (m rid)"
    show ?thesis
    proof (cases "unat t + unat ?x < 2 ^ 32")
      case False
      then show ?thesis using True by (simp add: answers_Cons checked_add_Inl)
    next
      case tx: True
      show ?thesis
      proof (cases "unat c + unat (1::uint32) < 2 ^ 32")
        case False
        then show ?thesis using True tx by (simp add: answers_Cons checked_add_Inl checked_add_Inr)
      next
        case c1: True
        have ut: "unat (t + ?x) = unat t + unat ?x" by (rule unat_add32 [OF tx])
        have uc: "unat (c + 1) = unat c + 1" using unat_add32 [OF c1] by simp
        show ?thesis using True tx c1
          by (simp add: answers_Cons checked_add_Inr Cons.IH ut uc add.assoc)
      qed
    qed
  qed
qed

lemma average_loop_start:
  "average_loop m ids 0 0 =
     (if sum_list (answers m ids) < 4294967296 \<and> length (answers m ids) < 4294967296
      then Inr (of_nat (sum_list (answers m ids)), of_nat (length (answers m ids)))
      else Inl (Panic 0x11))"
  by (simp add: average_loop_eq)

lemma computeAverage_eq:
  "computeAverage s =
     (if sum_list (verifiedPlaintexts s) < 2 ^ 32 \<and> length (verifiedPlaintexts s) < 2 ^ 32
      then (if verifiedPlaintexts s = [] then Inl (Require ''No verified responses'')
            else Inr (of_nat (sum_list (verifiedPlaintexts s) div length (verifiedPlaintexts s))))
      else Inl (Panic 0x11))"
proof -
  define vp where "vp = answers (surveyResponses s) (responseIds s)"
  have loop: "average_loop (surveyResponses s) (responseIds s) 0 0 =
     (if sum_list vp < 4294967296 \<and> length vp < 4294967296
      then Inr (of_nat (sum_list vp), of_nat (length vp))
      else Inl (Panic 0x11))"
    unfolding vp_def by (rule average_loop_start)
  have vps: "verifiedPlaintexts s = vp" by (simp add: verifiedPlaintexts_def vp_def)
  show ?thesis
  proof (cases "sum_list vp < 4294967296 \<and> length vp < 4294967296")
    case False
    then show ?thesis by (auto simp add: computeAverage_def loop vps)
  next
    case True
    have z: "((of_nat (length vp) :: uint32) = 0) = (vp = [])"
      using True by (simp add: of_nat32_eq_0)
    have d: "(of_nat (sum_list vp) :: uint32) div of_nat (length vp) =
          of_nat (sum_list vp div length vp)"
      using True by (intro of_nat32_div) simp_all
    have "computeAverage s =
        (if \<not> (of_nat (length vp) :: uint32) > 0 then Inl (Require ''No verified responses'')
         else checked_div (of_nat (sum_list vp)) (of_nat (length vp)))"
      using True by (simp add: computeAverage_def loop)
    also have "\<dots> = (if vp = [] then Inl (Require ''No verified responses'')
         else Inr (of_nat (sum_list vp div length vp)))"
    proof (cases "vp = []")
      case True
      then show ?thesis by (simp add: word_gt_0)
    next
      case False
      then have "(of_nat (length vp) :: uint32) \<noteq> 0" using z by simp
      then have "(0::uint32) \<noteq> of_nat (length vp)" by (rule not_sym)
      then show ?thesis using False by (simp add: word_gt_0 checked_div_def d)
    qed
    finally show ?thesis using True by (simp add: vps)
  qed
qed

text \<open>
  Claim C5, as the contract has it. When no response in \<open>responseIds\<close> is verified,
  \<open>computeAverage\<close> fails with \<open>NoVerifiedData\<close>. When some are, and their sum and
  their number each fit 32 bits, it returns the sum of the verified plaintexts
  divided by their number, rounded down. Over the verified plaintexts 3, 5, 10 it
  returns 6. (Without the bound the call reverts: see the counterexample.)
\<close>

theorem computeAverage_floor_mean:
  "(verifiedPlaintexts s = [] \<longrightarrow> computeAverage s = Inl NoVerifiedData) \<and>
   (verifiedPlaintexts s \<noteq> [] \<and> sum_list (verifiedPlaintexts s) \<le> 2 ^ 32 - 1
      \<and> length (verifiedPlaintexts s) \<le> 2 ^ 32 - 1 \<longrightarrow>
    (\<exists>r. computeAverage s = Inr r \<and>
         unat r = sum_list (verifiedPlaintexts s) div length (verifiedPlaintexts s))) \<and>
   (verifiedPlaintexts s = [3, 5, 10] \<longrightarrow> computeAverage s = Inr 6)"
proof (intro conjI impI)
  assume "verifiedPlaintexts s = []"
  then show "computeAverage s = Inl NoVerifiedData" by (simp add: computeAverage_eq)
next
  assume h: "verifiedPlaintexts s \<noteq> [] \<and> sum_list (verifiedPlaintexts s) \<le> 2 ^ 32 - 1
      \<and> length (verifiedPlaintexts s) \<le> 2 ^ 32 - 1"
  let ?q = "sum_list (verifiedPlaintexts s) div length (verifiedPlaintexts s)"
  have "?q \<le> sum_list (verifiedPlaintexts s)" by (rule div_le_dividend)
  moreover have "sum_list (verifiedPlaintexts s) < 4294967296" using h by simp
  ultimately have "?q < 4294967296" by (rule le_less_trans)
  then have "unat (of_nat ?q :: uint32) = ?q" by (rule unat_of_nat32)
  moreover have "computeAverage s = Inr (of_nat ?q)" using h by (simp add: computeAverage_eq)
  ultimately show "\<exists>r. computeAverage s = Inr r \<and> unat r = ?q" by blast
next
  assume "verifiedPlaintexts s = [3, 5, 10]"
  then show "computeAverage s = Inr 6" by (simp add: computeAverage_eq)
qed

theorem computeAverage_floor_mean_witness:
  "verifiedPlaintexts initial = [] \<and> computeAverage initial = Inl NoVerifiedData \<and>
   verifiedPlaintexts survey = [3, 5, 10] \<and> computeAverage survey = Inr 6 \<and>
   (\<exists>r. computeAverage survey = Inr r \<and> unat r = 18 div 3)"
  using computeAverage_floor_mean [of initial] computeAverage_floor_mean [of survey]
  by (simp add: initial_plaintexts survey_plaintexts)

text \<open>
  The claim without the bound fails: with the verified plaintexts \<open>2^32 - 1\<close> and 1
  the sum is \<open>2^32\<close>, the floor of the mean would be \<open>2^31\<close>, and the call reverts
  with \<open>Panic(0x11)\<close>.
\<close>

theorem computeAverage_overflow_counterexample:
  "reachable sample_env overflowing \<and>
   verifiedPlaintexts overflowing = [4294967295, 1] \<and>
   computeAverage overflowing = Inl (Panic 0x11)"
  by (simp add: computeAverage_eq overflowing_plaintexts reachable_sample)

text \<open>
  Claim C9. The sum is accumulated in checked 32-bit arithmetic: whenever the sum of
  the verified plaintexts exceeds \<open>2^32 - 1\<close>, \<open>computeAverage\<close> reverts with
  \<open>Panic(0x11)\<close>; so whenever it returns a value, the sum fits 32 bits.
\<close>

theorem computeAverage_reverts_on_overflow:
  "(2 ^ 32 - 1 < sum_list (verifiedPlaintexts s) \<longrightarrow> computeAverage s = Inl (Panic 0x11)) \<and>
   (\<forall>r. computeAverage s = Inr r \<longrightarrow> sum_list (verifiedPlaintexts s) \<le> 2 ^ 32 - 1)"
  by (auto simp add: computeAverage_eq split: if_splits)

theorem computeAverage_reverts_on_overflow_witness:
  "2 ^ 32 - 1 < sum_list (verifiedPlaintexts overflowing) \<and>
   computeAverage overflowing = Inl (Panic 0x11)"
  using computeAverage_reverts_on_overflow [of overflowing]
  by (simp add: overflowing_plaintexts)

section \<open>The distribution\<close>

lemma max_loop_eq: "unat (max_loop m ids mx) = Max (set (unat mx # answers m ids))"
proof (induction ids arbitrary: mx)
  case Nil
  show ?case by (simp add: answers_Nil)
next
  case (Cons rid rest)
  let ?x = "unat (decryptedAnswer (m rid))"
  let ?A = "set (answers m rest)"
  show ?case
  proof (cases "isVerified (m rid)")
    case nv: False
    then show ?thesis by (simp add: Cons.IH answers_Cons)
  next
    case v: True
    show ?thesis
    proof (cases "decryptedAnswer (m rid) > mx")
      case True
      then have le: "unat mx \<le> ?x" by (simp add: word_less_nat_alt)
      have "Max (insert (unat mx) (insert ?x ?A)) = Max (insert ?x ?A)"
        using Max_insert_absorb [of "insert ?x ?A" ?x "unat mx"] le by simp
      then show ?thesis using True v by (simp add: Cons.IH answers_Cons)
    next
      case False
      then have le: "?x \<le> unat mx" by (simp add: word_less_nat_alt not_less)
      have "Max (insert ?x (insert (unat mx) ?A)) = Max (insert (unat mx) ?A)"
        using Max_insert_absorb [of "insert (unat mx) ?A" "unat mx" ?x] le by simp
      then show ?thesis using False v by (simp add: Cons.IH answers_Cons insert_commute)
    qed
  qed
qed


lemma in_bucket_Nil: "in_bucket b i [] = 0"
  by (simp add: in_bucket_def)

lemma in_bucket_Cons: "in_bucket b i (v # vs) = (if v div b = i then 1 else 0) + in_bucket b i vs"
  by (simp add: in_bucket_def)

lemma in_bucket_le_length: "in_bucket b i vs \<le> length vs"
  by (simp add: in_bucket_def)

lemma checked_div_Inr: "b \<noteq> 0 \<Longrightarrow> checked_div a b = Inr (a div b)"
  by (simp add: checked_div_def)

lemma bucket_loop_eq:
  assumes "b \<noteq> 0"
  shows "\<forall>v \<in> set (answers m ids). v div unat b < length d \<Longrightarrow>
    bucket_loop m b ids d =
      (if \<forall>i < length d. unat (d ! i) + in_bucket (unat b) i (answers m ids) < 2 ^ 32
       then Inr (map (\<lambda>i. d ! i + of_nat (in_bucket (unat b) i (answers m ids))) [0..<length d])
       else Inl (Panic 0x11))"
proof (induction ids arbitrary: d)
  case Nil
  have "map (\<lambda>i. d ! i) [0..<length d] = d" by (rule map_nth)
  then show ?case by (simp add: answers_Nil in_bucket_Nil unat32_bound)
next
  case (Cons rid rest)
  show ?case
  proof (cases "isVerified (m rid)")
    case False
    then have a: "answers m (rid # rest) = answers m rest" by (simp add: answers_Cons)
    have "bucket_loop m b (rid # rest) d = bucket_loop m b rest d" using False by simp
    also have "\<dots> = (if \<forall>i < length d. unat (d ! i) + in_bucket (unat b) i (answers m rest) < 2 ^ 32
       then Inr (map (\<lambda>i. d ! i + of_nat (in_bucket (unat b) i (answers m rest))) [0..<length d])
       else Inl (Panic 0x11))"
      using Cons.prems a by (intro Cons.IH) simp
    finally show ?thesis by (simp only: a)
  next
    case True
    define x where "x = decryptedAnswer (m rid)"
    define k where "k = unat (x div b)"
    define vs where "vs = answers m rest"
    have a: "answers m (rid # rest) = unat x # vs"
      using True by (simp add: answers_Cons x_def vs_def)
    have k: "k = unat x div unat b" by (simp add: k_def unat_div)
    have kd: "k < length d" using Cons.prems a k by simp
    have rest_ok: "\<forall>v \<in> set (answers m rest). v div unat b < length d"
      using Cons.prems a by (simp add: vs_def)
    have cnt: "\<And>i. in_bucket (unat b) i (unat x # vs) = (if i = k then 1 else 0) + in_bucket (unat b) i vs"
      by (auto simp add: in_bucket_Cons k)
    show ?thesis
    proof (cases "unat (d ! k) + unat (1::uint32) < 2 ^ 32")
      case False
      then have "\<not> unat (d ! k) + in_bucket (unat b) k (unat x # vs) < 2 ^ 32"
        by (simp add: cnt)
      then have "\<not> (\<forall>i < length d. unat (d ! i) + in_bucket (unat b) i (unat x # vs) < 2 ^ 32)"
        using kd by blast
      moreover have "bucket_loop m b (rid # rest) d = Inl (Panic 0x11)"
        using True False kd assms
        by (simp add: checked_div_Inr checked_add_Inl x_def [symmetric] k_def [symmetric])
      ultimately show ?thesis by (simp only: a if_False)
    next
      case ok: True
      define d' where "d' = d[k := d ! k + 1]"
      have step: "bucket_loop m b (rid # rest) d = bucket_loop m b rest d'"
        using True ok kd assms
        by (simp add: checked_div_Inr checked_add_Inr x_def [symmetric] k_def [symmetric] d'_def)
      have len: "length d' = length d" by (simp add: d'_def)
      have uk: "unat (d ! k + 1) = unat (d ! k) + 1" using unat_add32 [OF ok] by simp
      have ih: "bucket_loop m b rest d' =
        (if \<forall>i < length d'. unat (d' ! i) + in_bucket (unat b) i vs < 2 ^ 32
         then Inr (map (\<lambda>i. d' ! i + of_nat (in_bucket (unat b) i vs)) [0..<length d'])
         else Inl (Panic 0x11))"
        unfolding vs_def using rest_ok by (intro Cons.IH) (simp add: len)
      have un: "\<And>i. i < length d \<Longrightarrow>
          unat (d' ! i) + in_bucket (unat b) i vs = unat (d ! i) + in_bucket (unat b) i (unat x # vs)"
        by (simp add: d'_def cnt nth_list_update uk)
      have wd: "\<And>i. i < length d \<Longrightarrow>
          d' ! i + of_nat (in_bucket (unat b) i vs) = d ! i + of_nat (in_bucket (unat b) i (unat x # vs))"
        by (simp add: d'_def cnt nth_list_update)
      have c: "(\<forall>i < length d'. unat (d' ! i) + in_bucket (unat b) i vs < 2 ^ 32) =
               (\<forall>i < length d. unat (d ! i) + in_bucket (unat b) i (unat x # vs) < 2 ^ 32)"
        using un by (simp add: len)
      have r: "map (\<lambda>i. d' ! i + of_nat (in_bucket (unat b) i vs)) [0..<length d'] =
               map (\<lambda>i. d ! i + of_nat (in_bucket (unat b) i (unat x # vs))) [0..<length d]"
        using wd by (simp add: len)
      show ?thesis by (simp only: step ih c r a)
    qed
  qed
qed


lemma max_loop_start: "unat (max_loop (surveyResponses s) (responseIds s) 0) = maxVerifiedPlaintext s"
  by (simp add: max_loop_eq maxVerifiedPlaintext_def verifiedPlaintexts_def)

lemma plaintext_le_max: "v \<in> set (verifiedPlaintexts s) \<Longrightarrow> v \<le> maxVerifiedPlaintext s"
  by (simp add: maxVerifiedPlaintext_def)

lemma computeDistribution_eq:
  assumes "bucketSize \<noteq> 0"
  shows "computeDistribution s bucketSize =
     (if maxVerifiedPlaintext s div unat bucketSize + 1 < 2 ^ 32 \<and>
         (\<forall>i < maxVerifiedPlaintext s div unat bucketSize + 1.
            in_bucket (unat bucketSize) i (verifiedPlaintexts s) < 2 ^ 32)
      then Inr (map (\<lambda>i. of_nat (in_bucket (unat bucketSize) i (verifiedPlaintexts s)))
                  [0..<maxVerifiedPlaintext s div unat bucketSize + 1])
      else Inl (Panic 0x11))"
proof -
  define mx where "mx = max_loop (surveyResponses s) (responseIds s) 0"
  define n where "n = maxVerifiedPlaintext s div unat bucketSize + 1"
  have umx: "unat mx = maxVerifiedPlaintext s" by (simp add: mx_def max_loop_start)
  have uq: "unat (mx div bucketSize) = maxVerifiedPlaintext s div unat bucketSize"
    by (simp add: unat_div umx)
  have start: "computeDistribution s bucketSize =
      (case checked_add (mx div bucketSize) 1 of
         Inl e \<Rightarrow> Inl e
       | Inr numBuckets \<Rightarrow>
           bucket_loop (surveyResponses s) bucketSize (responseIds s) (replicate (unat numBuckets) 0))"
    using assms by (simp add: computeDistribution_def mx_def [symmetric] checked_div_Inr)
  show ?thesis
  proof (cases "n < 2 ^ 32")
    case False
    then have "\<not> unat (mx div bucketSize) + unat (1::uint32) < 2 ^ 32" by (simp add: uq n_def)
    then have "computeDistribution s bucketSize = Inl (Panic 0x11)"
      by (simp add: start checked_add_Inl)
    then show ?thesis using False by (simp add: n_def)
  next
    case True
    then have ok: "unat (mx div bucketSize) + unat (1::uint32) < 2 ^ 32" by (simp add: uq n_def)
    have un: "unat (mx div bucketSize + 1) = n" using unat_add32 [OF ok] by (simp add: uq n_def)
    have fit: "\<forall>v \<in> set (answers (surveyResponses s) (responseIds s)).
        v div unat bucketSize < length (replicate n (0::uint32))"
    proof
      fix v assume "v \<in> set (answers (surveyResponses s) (responseIds s))"
      then have "v \<le> maxVerifiedPlaintext s"
        using plaintext_le_max [of v s] by (simp add: verifiedPlaintexts_def)
      then have "v div unat bucketSize \<le> maxVerifiedPlaintext s div unat bucketSize"
        by (rule div_le_mono)
      then show "v div unat bucketSize < length (replicate n (0::uint32))" by (simp add: n_def)
    qed
    have "computeDistribution s bucketSize =
        bucket_loop (surveyResponses s) bucketSize (responseIds s) (replicate n 0)"
      using ok by (simp add: start checked_add_Inr un)
    also have "\<dots> =
      (if \<forall>i < length (replicate n (0::uint32)). unat (replicate n (0::uint32) ! i)
            + in_bucket (unat bucketSize) i (answers (surveyResponses s) (responseIds s)) < 2 ^ 32
       then Inr (map (\<lambda>i. replicate n (0::uint32) ! i
            + of_nat (in_bucket (unat bucketSize) i (answers (surveyResponses s) (responseIds s))))
              [0..<length (replicate n (0::uint32))])
       else Inl (Panic 0x11))"
      by (rule bucket_loop_eq [OF assms fit])
    also have "\<dots> =
      (if \<forall>i < n. in_bucket (unat bucketSize) i (verifiedPlaintexts s) < 2 ^ 32
       then Inr (map (\<lambda>i. of_nat (in_bucket (unat bucketSize) i (verifiedPlaintexts s))) [0..<n])
       else Inl (Panic 0x11))"
      by (simp add: verifiedPlaintexts_def cong: map_cong)
    finally show ?thesis using True by (simp add: n_def)
  qed
qed

text \<open>
  Claim C6, as the contract has it. For every \<open>bucketSize > 0\<close> such that the number
  of buckets \<open>floor(maxVerifiedPlaintext / bucketSize) + 1\<close> fits 32 bits and no
  bucket holds more than \<open>2^32 - 1\<close> responses, \<open>computeDistribution(bucketSize)\<close>
  returns a sequence of that length whose entry \<open>i\<close> is the number of verified
  responses with \<open>floor(plaintext / bucketSize) = i\<close>; every bucket is present, an
  empty one as 0. Over the verified plaintexts 0, 4, 5, 9, 12 with bucket size 5 it
  returns \<open>[2, 2, 1]\<close>. (Without the bounds the call reverts: see the counterexample.)
\<close>

theorem computeDistribution_histogram:
  "(bucketSize \<noteq> 0 \<and>
    maxVerifiedPlaintext s div unat bucketSize + 1 \<le> 2 ^ 32 - 1 \<and>
    (\<forall>i. in_bucket (unat bucketSize) i (verifiedPlaintexts s) \<le> 2 ^ 32 - 1) \<longrightarrow>
    (\<exists>d. computeDistribution s bucketSize = Inr d \<and>
         length d = maxVerifiedPlaintext s div unat bucketSize + 1 \<and>
         (\<forall>i < length d. unat (d ! i) = in_bucket (unat bucketSize) i (verifiedPlaintexts s)))) \<and>
   (verifiedPlaintexts s = [0, 4, 5, 9, 12] \<longrightarrow> computeDistribution s 5 = Inr [2, 2, 1])"
proof (intro conjI impI)
  assume h: "bucketSize \<noteq> 0 \<and>
    maxVerifiedPlaintext s div unat bucketSize + 1 \<le> 2 ^ 32 - 1 \<and>
    (\<forall>i. in_bucket (unat bucketSize) i (verifiedPlaintexts s) \<le> 2 ^ 32 - 1)"
  define n where "n = maxVerifiedPlaintext s div unat bucketSize + 1"
  define d :: "uint32 list" where
    "d = map (\<lambda>i. of_nat (in_bucket (unat bucketSize) i (verifiedPlaintexts s))) [0..<n]"
  have fits: "\<And>i. in_bucket (unat bucketSize) i (verifiedPlaintexts s) < 4294967296"
  proof -
    fix i
    have "in_bucket (unat bucketSize) i (verifiedPlaintexts s) \<le> 2 ^ 32 - 1" using h by blast
    then show "in_bucket (unat bucketSize) i (verifiedPlaintexts s) < 4294967296" by simp
  qed
  have "computeDistribution s bucketSize = Inr d"
    using h fits by (simp add: computeDistribution_eq d_def n_def)
  moreover have "length d = n" by (simp add: d_def)
  moreover have "\<forall>i < length d. unat (d ! i) = in_bucket (unat bucketSize) i (verifiedPlaintexts s)"
    by (simp add: d_def unat_of_nat32 fits)
  ultimately show "\<exists>d. computeDistribution s bucketSize = Inr d \<and>
         length d = maxVerifiedPlaintext s div unat bucketSize + 1 \<and>
         (\<forall>i < length d. unat (d ! i) = in_bucket (unat bucketSize) i (verifiedPlaintexts s))"
    unfolding n_def by blast
next
  assume vp: "verifiedPlaintexts s = [0, 4, 5, 9, 12]"
  have m: "maxVerifiedPlaintext s = 12" by (simp add: maxVerifiedPlaintext_def vp)
  have u: "[0..<3] = [0, 1, Suc (Suc 0)]" by (simp add: upt_rec)
  have lt: "\<And>i. in_bucket 5 i [0, 4, 5, 9, 12] < 4294967296"
  proof -
    fix i
    have "in_bucket 5 i [0, 4, 5, 9, 12] \<le> length [0::nat, 4, 5, 9, 12]"
      by (rule in_bucket_le_length)
    also have "\<dots> < 4294967296" by simp
    finally show "in_bucket 5 i [0, 4, 5, 9, 12] < 4294967296" .
  qed
  have "computeDistribution s 5 =
      Inr (map (\<lambda>i. of_nat (in_bucket 5 i [0, 4, 5, 9, 12])) [0..<3])"
    using lt by (simp add: computeDistribution_eq m vp)
  also have "\<dots> = Inr [2, 2, 1]" by (simp add: u in_bucket_def)
  finally show "computeDistribution s 5 = Inr [2, 2, 1]" .
qed

theorem computeDistribution_histogram_witness:
  "(5::uint32) \<noteq> 0 \<and>
   maxVerifiedPlaintext histogram div unat (5::uint32) + 1 \<le> 2 ^ 32 - 1 \<and>
   (\<forall>i. in_bucket (unat (5::uint32)) i (verifiedPlaintexts histogram) \<le> 2 ^ 32 - 1) \<and>
   verifiedPlaintexts histogram = [0, 4, 5, 9, 12] \<and>
   computeDistribution histogram 5 = Inr [2, 2, 1] \<and>
   (\<exists>d. computeDistribution histogram 5 = Inr d \<and> length d = 3)"
proof -
  have le: "\<And>i. in_bucket 5 i [0, 4, 5, 9, 12] \<le> 4294967295"
  proof -
    fix i
    have "in_bucket 5 i [0, 4, 5, 9, 12] \<le> length [0::nat, 4, 5, 9, 12]"
      by (rule in_bucket_le_length)
    then show "in_bucket 5 i [0, 4, 5, 9, 12] \<le> 4294967295" by simp
  qed
  have m: "maxVerifiedPlaintext histogram = 12"
    by (simp add: maxVerifiedPlaintext_def histogram_plaintexts)
  show ?thesis
    using computeDistribution_histogram [of 5 histogram] le
    by (simp add: histogram_plaintexts m)
qed

text \<open>
  The claim without the bound fails: with a verified plaintext of \<open>2^32 - 1\<close> and
  bucket size 1 the number of buckets would be \<open>2^32\<close>; the checked addition
  \<open>(maxAnswer / bucketSize) + 1\<close> overflows \<open>uint32\<close> and the call reverts.
\<close>

theorem computeDistribution_bucket_count_overflow_counterexample:
  "reachable sample_env overflowing \<and>
   verifiedPlaintexts overflowing = [4294967295, 1] \<and>
   computeDistribution overflowing 1 = Inl (Panic 0x11)"
proof -
  have m: "maxVerifiedPlaintext overflowing = 4294967295"
    by (simp add: maxVerifiedPlaintext_def overflowing_plaintexts)
  show ?thesis by (simp add: computeDistribution_eq m overflowing_plaintexts reachable_sample)
qed

text \<open>
  Claim C10. With a non-zero bucket size and no verified response,
  \<open>computeDistribution\<close> does not fail: the maximum is taken as 0 and the result is
  the one-element sequence \<open>[0]\<close>, while \<open>computeAverage\<close> rejects the same ledger
  with \<open>NoVerifiedData\<close>.
\<close>

theorem computeDistribution_no_verified:
  "bucketSize \<noteq> 0 \<and> verifiedPlaintexts s = [] \<longrightarrow>
     maxVerifiedPlaintext s = 0 \<and>
     computeDistribution s bucketSize = Inr [0] \<and>
     computeAverage s = Inl NoVerifiedData"
proof
  assume h: "bucketSize \<noteq> 0 \<and> verifiedPlaintexts s = []"
  then have m: "maxVerifiedPlaintext s = 0" by (simp add: maxVerifiedPlaintext_def)
  have "computeDistribution s bucketSize = Inr [0]"
    using h by (simp add: computeDistribution_eq m in_bucket_Nil)
  moreover have "computeAverage s = Inl NoVerifiedData"
    using h by (simp add: computeAverage_eq)
  ultimately show "maxVerifiedPlaintext s = 0 \<and>
     computeDistribution s bucketSize = Inr [0] \<and>
     computeAverage s = Inl NoVerifiedData" using m by simp
qed

theorem computeDistribution_no_verified_witness:
  "(7::uint32) \<noteq> 0 \<and> verifiedPlaintexts pending = [] \<and>
   responseIds pending = [''p1'', ''p2''] \<and>
   computeDistribution pending 7 = Inr [0] \<and>
   computeAverage pending = Inl NoVerifiedData"
  using computeDistribution_no_verified [of 7 pending]
  by (simp add: pending_plaintexts) (simp add: pending_def sample_run)

text \<open>
  Claim C7 asks that \<open>computeDistribution(0)\<close> fail with a typed \<open>InvalidArgument\<close>
  rejection instead of dividing by zero. The contract has no such guard: on every
  ledger the call divides \<open>maxAnswer\<close> by zero and reverts with \<open>Panic(0x12)\<close>.
\<close>

theorem computeDistribution_zero_bucket_panics:
  "computeDistribution s 0 = Inl (Panic 0x12)"
  by (simp add: computeDistribution_def checked_div_def)

section \<open>Submission and verification: the claims\<close>

lemma stored_responseIds:
  "presence_test env \<Longrightarrow> reachable env s \<Longrightarrow> (rid \<in> set (responseIds s)) =
     (length (bytesOfAddress env (respondent (surveyResponses s rid))) > 0)"
  using reachable_inv [of env s] by (auto simp add: ledger_inv_def stored_def)

lemma apply_call_responseIds:
  "responseIds (apply_call env s c) =
     responseIds s @ submitted env [c] s"
proof (cases c)
  case (Submit ctx rid enc pf md)
  then show ?thesis
    by (auto simp add: apply_call_def split: sum.splits dest: submitResponse_Inr)
next
  case (Verify rid payload pf)
  then show ?thesis
    by (auto simp add: apply_call_def split: sum.splits dest: verifyDecryption_Inr)
qed

lemma submitted_Cons: "submitted env (c # cs) s = submitted env [c] s @ submitted env cs (apply_call env s c)"
  by (cases c) (auto simp add: apply_call_def split: sum.splits)

lemma run_responseIds: "responseIds (run env cs s) = responseIds s @ submitted env cs s"
proof (induction cs arbitrary: s)
  case Nil
  show ?case by (simp add: run_Nil)
next
  case (Cons c cs)
  have "responseIds (run env (c # cs) s) = responseIds (apply_call env s c) @ submitted env cs (apply_call env s c)"
    by (simp add: run_Cons Cons.IH)
  also have "\<dots> = responseIds s @ submitted env [c] s @ submitted env cs (apply_call env s c)"
    by (simp add: apply_call_responseIds)
  also have "\<dots> = responseIds s @ submitted env (c # cs) s"
    by (simp add: submitted_Cons [of env c cs s])
  finally show ?case .
qed

lemma sample_ids:
  "responseIds survey = [''r1'', ''r2'', ''r3'', ''r4'']"
  "responseIds pending = [''p1'', ''p2'']"
  by (simp_all add: survey_def pending_def sample_run)

lemma abi_decode_uint32_Inr:
  assumes "abi_decode_uint32 payload = Inr v"
  shows "32 \<le> length payload \<and> unat v = be_nat (take 32 payload)"
  using assms by (auto simp add: abi_decode_uint32_def unat_of_nat32 split: if_splits)

text \<open>
  Claim C3. On a reachable ledger, under the reading \<open>presence_test\<close> of the
  existence test: a submission of an id that is already in \<open>responseIds\<close> fails with
  \<open>DuplicateId\<close> and leaves the ledger as it was; every failing submission leaves the
  ledger as it was; a submission that succeeds was of a new id, appends that id to
  \<open>responseIds\<close>, writes exactly the one record of that id (the handle, the metadata,
  the sender, the timestamp, plaintext 0, not verified), changes no other record and
  emits \<open>ResponseSubmitted\<close>.
\<close>

theorem submitResponse_duplicate_and_atomic:
  assumes "presence_test env" and "reachable env s"
  shows "(rid \<in> set (responseIds s) \<longrightarrow>
            submitResponse env ctx rid enc prf md s = Inl DuplicateId \<and>
            apply_call env s (Submit ctx rid enc prf md) = s) \<and>
         (\<forall>e. submitResponse env ctx rid enc prf md s = Inl e \<longrightarrow>
            apply_call env s (Submit ctx rid enc prf md) = s) \<and>
         (\<forall>s'. submitResponse env ctx rid enc prf md s = Inr s' \<longrightarrow>
            rid \<notin> set (responseIds s) \<and>
            responseIds s' = responseIds s @ [rid] \<and>
            (\<forall>other. other \<noteq> rid \<longrightarrow> surveyResponses s' other = surveyResponses s other) \<and>
            (\<exists>h. fromExternal env (msg_sender ctx) enc prf = Some h \<and>
                 surveyResponses s' rid =
                   \<lparr>encryptedAnswer = h, publicMetadata = md, respondent = msg_sender ctx,
                    timestamp = block_timestamp ctx, decryptedAnswer = 0, isVerified = False\<rparr>) \<and>
            emitted s' = emitted s @ [ResponseSubmitted rid (msg_sender ctx)])"
proof (intro conjI impI allI)
  assume "rid \<in> set (responseIds s)"
  then have "length (bytesOfAddress env (respondent (surveyResponses s rid))) > 0"
    using stored_responseIds [OF assms] by simp
  then show "submitResponse env ctx rid enc prf md s = Inl DuplicateId"
    by (simp add: submitResponse_def)
  then show "apply_call env s (Submit ctx rid enc prf md) = s"
    by (simp add: apply_call_def)
next
  fix e assume "submitResponse env ctx rid enc prf md s = Inl e"
  then show "apply_call env s (Submit ctx rid enc prf md) = s"
    by (simp add: apply_call_def)
next
  fix s' assume ok: "submitResponse env ctx rid enc prf md s = Inr s'"
  note r = submitResponse_Inr [OF ok]
  from r show "rid \<notin> set (responseIds s)"
    using stored_responseIds [OF assms, of rid] by simp
  from r show "responseIds s' = responseIds s @ [rid]" by auto
  from r show "emitted s' = emitted s @ [ResponseSubmitted rid (msg_sender ctx)]" by auto
  from r show "\<exists>h. fromExternal env (msg_sender ctx) enc prf = Some h \<and>
                 surveyResponses s' rid =
                   \<lparr>encryptedAnswer = h, publicMetadata = md, respondent = msg_sender ctx,
                    timestamp = block_timestamp ctx, decryptedAnswer = 0, isVerified = False\<rparr>"
    by auto
  fix other assume "other \<noteq> rid"
  with r show "surveyResponses s' other = surveyResponses s other" by auto
qed

theorem submitResponse_duplicate_and_atomic_witness:
  "presence_test sample_env \<and> reachable sample_env pending \<and>
   ''p1'' \<in> set (responseIds pending) \<and>
   submitResponse sample_env alice ''p1'' 77 [1] 5 pending = Inl DuplicateId \<and>
   apply_call sample_env pending (Submit alice ''p1'' 77 [1] 5) = pending \<and>
   (\<exists>s'. submitResponse sample_env alice ''p3'' 77 [1] 5 pending = Inr s' \<and>
         responseIds s' = [''p1'', ''p2'', ''p3''] \<and>
         \<not> isVerified (surveyResponses s' ''p3'') \<and>
         decryptedAnswer (surveyResponses s' ''p3'') = 0)"
proof -
  have ok: "\<exists>s'. submitResponse sample_env alice ''p3'' 77 [1] 5 pending = Inr s'"
    by (simp add: pending_def sample_run)
  then obtain s' where s': "submitResponse sample_env alice ''p3'' 77 [1] 5 pending = Inr s'" ..
  have p1: "''p1'' \<in> set (responseIds pending)" by (simp add: sample_ids)
  note t1 = submitResponse_duplicate_and_atomic
    [OF presence_test_sample reachable_sample(4), of "''p1''" alice 77 "[1]" 5]
  note t3 = submitResponse_duplicate_and_atomic
    [OF presence_test_sample reachable_sample(4), of "''p3''" alice 77 "[1]" 5]
  from t3 s' have "responseIds s' = [''p1'', ''p2'', ''p3''] \<and>
         \<not> isVerified (surveyResponses s' ''p3'') \<and>
         decryptedAnswer (surveyResponses s' ''p3'') = 0"
    by (auto simp add: sample_ids)
  with s' t1 p1 show ?thesis
    using presence_test_sample reachable_sample(4) by blast
qed

text \<open>
  Claim C4. On a reachable ledger, under \<open>presence_test\<close>: \<open>verifyDecryption\<close>
  fails with \<open>NotFound\<close> when the id is unknown; for a known id that is not yet
  verified it fails with \<open>ProofInvalid\<close> when \<open>FHE.checkSignatures\<close> rejects the
  proof for the handle stored under the id; when the proof checks and the payload
  decodes, it succeeds. Whenever it succeeds, the payload decoded as one 32-byte slot
  holding one \<open>uint32\<close>, the record of the id has that value as plaintext and is
  verified, \<open>ResponseDecrypted\<close> was emitted with the id and the value, and nothing
  else in storage changed.
\<close>

theorem verifyDecryption_outcomes:
  assumes "presence_test env" and "reachable env s"
  shows "(rid \<notin> set (responseIds s) \<longrightarrow>
            verifyDecryption env rid payload prf s = Inl NotFound) \<and>
         (rid \<in> set (responseIds s) \<and> \<not> isVerified (surveyResponses s rid) \<and>
          \<not> checkSignatures env [toBytes32 env (encryptedAnswer (surveyResponses s rid))] payload prf \<longrightarrow>
            verifyDecryption env rid payload prf s = Inl ProofInvalid) \<and>
         (rid \<in> set (responseIds s) \<and> \<not> isVerified (surveyResponses s rid) \<and>
          checkSignatures env [toBytes32 env (encryptedAnswer (surveyResponses s rid))] payload prf \<and>
          abi_decode_uint32 payload = Inr v \<longrightarrow>
            verifyDecryption env rid payload prf s =
              Inr (s\<lparr>surveyResponses := (surveyResponses s)(rid :=
                       (surveyResponses s rid)\<lparr>decryptedAnswer := v, isVerified := True\<rparr>),
                     emitted := emitted s @ [ResponseDecrypted rid v]\<rparr>)) \<and>
         (\<forall>s'. verifyDecryption env rid payload prf s = Inr s' \<longrightarrow>
            (\<exists>w. abi_decode_uint32 payload = Inr w \<and>
                 32 \<le> length payload \<and> unat w = be_nat (take 32 payload) \<and>
                 decryptedAnswer (surveyResponses s' rid) = w \<and>
                 isVerified (surveyResponses s' rid) \<and>
                 emitted s' = emitted s @ [ResponseDecrypted rid w]) \<and>
            encryptedAnswer (surveyResponses s' rid) = encryptedAnswer (surveyResponses s rid) \<and>
            (\<forall>other. other \<noteq> rid \<longrightarrow> surveyResponses s' other = surveyResponses s other) \<and>
            responseIds s' = responseIds s)"
proof (intro conjI impI allI)
  assume "rid \<notin> set (responseIds s)"
  then show "verifyDecryption env rid payload prf s = Inl NotFound"
    using stored_responseIds [OF assms, of rid] by (simp add: verifyDecryption_def)
next
  assume "rid \<in> set (responseIds s) \<and> \<not> isVerified (surveyResponses s rid) \<and>
          \<not> checkSignatures env [toBytes32 env (encryptedAnswer (surveyResponses s rid))] payload prf"
  then show "verifyDecryption env rid payload prf s = Inl ProofInvalid"
    using stored_responseIds [OF assms, of rid] by (simp add: verifyDecryption_def)
next
  assume "rid \<in> set (responseIds s) \<and> \<not> isVerified (surveyResponses s rid) \<and>
          checkSignatures env [toBytes32 env (encryptedAnswer (surveyResponses s rid))] payload prf \<and>
          abi_decode_uint32 payload = Inr v"
  then show "verifyDecryption env rid payload prf s =
              Inr (s\<lparr>surveyResponses := (surveyResponses s)(rid :=
                       (surveyResponses s rid)\<lparr>decryptedAnswer := v, isVerified := True\<rparr>),
                     emitted := emitted s @ [ResponseDecrypted rid v]\<rparr>)"
    using stored_responseIds [OF assms, of rid] by (simp add: verifyDecryption_def)
next
  fix s' assume ok: "verifyDecryption env rid payload prf s = Inr s'"
  from verifyDecryption_Inr [OF ok] obtain w where
    w: "abi_decode_uint32 payload = Inr w" and
    s': "s' = s\<lparr>surveyResponses := (surveyResponses s)(rid :=
                 (surveyResponses s rid)\<lparr>decryptedAnswer := w, isVerified := True\<rparr>),
               emitted := emitted s @ [ResponseDecrypted rid w]\<rparr>"
    by blast
  show "\<exists>w. abi_decode_uint32 payload = Inr w \<and>
                 32 \<le> length payload \<and> unat w = be_nat (take 32 payload) \<and>
                 decryptedAnswer (surveyResponses s' rid) = w \<and>
                 isVerified (surveyResponses s' rid) \<and>
                 emitted s' = emitted s @ [ResponseDecrypted rid w]"
    using w abi_decode_uint32_Inr [OF w] by (simp add: s')
  show "encryptedAnswer (surveyResponses s' rid) = encryptedAnswer (surveyResponses s rid)"
    by (simp add: s')
  show "responseIds s' = responseIds s" by (simp add: s')
  fix other assume "other \<noteq> rid"
  then show "surveyResponses s' other = surveyResponses s other" by (simp add: s')
qed

theorem verifyDecryption_outcomes_witness:
  "presence_test sample_env \<and> reachable sample_env pending \<and>
   ''zz'' \<notin> set (responseIds pending) \<and>
   verifyDecryption sample_env ''zz'' (abi_encode_uint32 42) [1] pending = Inl NotFound \<and>
   ''p1'' \<in> set (responseIds pending) \<and> \<not> isVerified (surveyResponses pending ''p1'') \<and>
   \<not> checkSignatures sample_env
        [toBytes32 sample_env (encryptedAnswer (surveyResponses pending ''p1''))]
        (abi_encode_uint32 42) [] \<and>
   verifyDecryption sample_env ''p1'' (abi_encode_uint32 42) [] pending = Inl ProofInvalid \<and>
   checkSignatures sample_env
        [toBytes32 sample_env (encryptedAnswer (surveyResponses pending ''p1''))]
        (abi_encode_uint32 42) [1] \<and>
   abi_decode_uint32 (abi_encode_uint32 42) = Inr 42 \<and>
   (\<exists>s'. verifyDecryption sample_env ''p1'' (abi_encode_uint32 42) [1] pending = Inr s' \<and>
         decryptedAnswer (surveyResponses s' ''p1'') = 42 \<and>
         isVerified (surveyResponses s' ''p1'') \<and>
         emitted s' = emitted pending @ [ResponseDecrypted ''p1'' 42])"
proof -
  note t = verifyDecryption_outcomes [OF presence_test_sample reachable_sample(4)]
  have zz: "''zz'' \<notin> set (responseIds pending)" and p1: "''p1'' \<in> set (responseIds pending)"
    by (simp_all add: sample_ids)
  have nv: "\<not> isVerified (surveyResponses pending ''p1'')"
    by (simp add: pending_def sample_run)
  have dec: "abi_decode_uint32 (abi_encode_uint32 42) = Inr 42"
    by (simp add: decode_encode be_nat_encode)
  have cs0: "\<not> checkSignatures sample_env
        [toBytes32 sample_env (encryptedAnswer (surveyResponses pending ''p1''))]
        (abi_encode_uint32 42) []"
    by (simp add: sample_env_def)
  have cs1: "checkSignatures sample_env
        [toBytes32 sample_env (encryptedAnswer (surveyResponses pending ''p1''))]
        (abi_encode_uint32 42) [1]"
    by (simp add: sample_env_def)
  have a: "verifyDecryption sample_env ''zz'' (abi_encode_uint32 42) [1] pending = Inl NotFound"
    using t [of "''zz''" "abi_encode_uint32 42" "[1]" 42, THEN conjunct1] zz by (rule mp)
  have b: "verifyDecryption sample_env ''p1'' (abi_encode_uint32 42) [] pending = Inl ProofInvalid"
    using t [of "''p1''" "abi_encode_uint32 42" "[]" 42, THEN conjunct2, THEN conjunct1] p1 nv cs0
    by blast
  have c: "verifyDecryption sample_env ''p1'' (abi_encode_uint32 42) [1] pending =
      Inr (pending\<lparr>surveyResponses := (surveyResponses pending)(''p1'' :=
                       (surveyResponses pending ''p1'')\<lparr>decryptedAnswer := 42, isVerified := True\<rparr>),
                     emitted := emitted pending @ [ResponseDecrypted ''p1'' 42]\<rparr>)"
    using t [of "''p1''" "abi_encode_uint32 42" "[1]" 42, THEN conjunct2, THEN conjunct2, THEN conjunct1]
      p1 nv cs1 dec by blast
  have d: "\<exists>s'. verifyDecryption sample_env ''p1'' (abi_encode_uint32 42) [1] pending = Inr s' \<and>
         decryptedAnswer (surveyResponses s' ''p1'') = 42 \<and>
         isVerified (surveyResponses s' ''p1'') \<and>
         emitted s' = emitted pending @ [ResponseDecrypted ''p1'' 42]"
    by (rule exI, rule conjI, rule c) simp
  show ?thesis
    using presence_test_sample reachable_sample(4) zz p1 nv cs0 cs1 dec a b d
    by (intro conjI)
qed

text \<open>
  Claim C8. On a reachable ledger, under \<open>presence_test\<close>: \<open>getAllResponseIds\<close>
  returns as many ids as there are stored records, each once; after any further calls
  it returns the same ids followed by the ids of the submissions that succeeded, in
  the order of the calls (from the empty ledger: exactly the submitted ids in
  submission order); a verification, successful or not, leaves it as it was.
\<close>

theorem getAllResponseIds_submission_order:
  assumes "presence_test env" and "reachable env s"
  shows "length (getAllResponseIds s) = card (stored env s) \<and>
         distinct (getAllResponseIds s) \<and>
         set (getAllResponseIds s) = stored env s \<and>
         getAllResponseIds (run env cs s) = getAllResponseIds s @ submitted env cs s \<and>
         getAllResponseIds (run env cs initial) = submitted env cs initial \<and>
         (\<forall>rid payload prf.
            getAllResponseIds (apply_call env s (Verify rid payload prf)) = getAllResponseIds s)"
proof -
  have inv: "ledger_inv env s" by (rule reachable_inv [OF assms])
  then have d: "distinct (responseIds s)" and st: "set (responseIds s) = stored env s"
    by (simp_all add: ledger_inv_def)
  have "card (stored env s) = length (responseIds s)"
    using distinct_card [OF d] st by simp
  moreover have "\<And>rid payload prf.
      responseIds (apply_call env s (Verify rid payload prf)) = responseIds s"
    by (simp add: apply_call_responseIds)
  moreover have "responseIds (run env cs initial) = submitted env cs initial"
    by (simp add: run_responseIds initial_def)
  ultimately show ?thesis
    using d st by (simp add: getAllResponseIds_def run_responseIds)
qed

theorem getAllResponseIds_submission_order_witness:
  "presence_test sample_env \<and> reachable sample_env pending \<and>
   getAllResponseIds pending = [''p1'', ''p2''] \<and>
   card (stored sample_env pending) = 2 \<and>
   getAllResponseIds (run sample_env
       [Verify ''p2'' (abi_encode_uint32 8) [1],
        Submit alice ''p0'' 40 [1] 0,
        Submit alice ''p1'' 43 [1] 0,
        Verify ''p1'' (abi_encode_uint32 9) [1]] pending) = [''p1'', ''p2'', ''p0'']"
proof -
  let ?cs = "[Verify ''p2'' (abi_encode_uint32 8) [1],
        Submit alice ''p0'' 40 [1] 0,
        Submit alice ''p1'' 43 [1] 0,
        Verify ''p1'' (abi_encode_uint32 9) [1]]"
  note t = getAllResponseIds_submission_order [OF presence_test_sample reachable_sample(4), of ?cs]
  have ids: "getAllResponseIds pending = [''p1'', ''p2'']"
    by (simp add: getAllResponseIds_def sample_ids)
  have sub: "submitted sample_env ?cs pending = [''p0'']"
    by (simp add: pending_def sample_run)
  from t have "length (getAllResponseIds pending) = card (stored sample_env pending)"
    by (rule conjunct1)
  then have c: "card (stored sample_env pending) = 2" by (simp add: ids)
  from t have "getAllResponseIds (run sample_env ?cs pending) =
      getAllResponseIds pending @ submitted sample_env ?cs pending"
    by blast
  then have r: "getAllResponseIds (run sample_env ?cs pending) = [''p1'', ''p2'', ''p0'']"
    by (simp only: ids sub append.simps)
  show ?thesis
    using presence_test_sample reachable_sample(4) ids c r by (intro conjI)
qed

lemma verified_kept:
  assumes inv: "ledger_inv env s" and v: "isVerified (surveyResponses s rid)"
  shows "isVerified (surveyResponses (apply_call env s c) rid) \<and>
         decryptedAnswer (surveyResponses (apply_call env s c) rid) =
           decryptedAnswer (surveyResponses s rid)"
proof (cases c)
  case (Submit ctx r enc pf md)
  have st: "length (bytesOfAddress env (respondent (surveyResponses s rid))) > 0"
    using inv v by (simp add: ledger_inv_def stored_def)
  show ?thesis
  proof (cases "submitResponse env ctx r enc pf md s")
    case (Inl e)
    then show ?thesis using Submit v by (simp add: apply_call_def)
  next
    case (Inr s')
    from submitResponse_Inr [OF Inr] st have "r \<noteq> rid" by auto
    with submitResponse_Inr [OF Inr] show ?thesis
      using Submit Inr v by (auto simp add: apply_call_def)
  qed
next
  case (Verify r payload pf)
  show ?thesis
  proof (cases "verifyDecryption env r payload pf s")
    case (Inl e)
    then show ?thesis using Verify v by (simp add: apply_call_def)
  next
    case (Inr s')
    from verifyDecryption_Inr [OF Inr] v have "r \<noteq> rid" by auto
    with verifyDecryption_Inr [OF Inr] show ?thesis
      using Verify Inr v by (auto simp add: apply_call_def)
  qed
qed

lemma verified_kept_run:
  assumes pt: "presence_test env"
  shows "reachable env s \<Longrightarrow> list_all sender_nonzero cs \<Longrightarrow> isVerified (surveyResponses s rid) \<Longrightarrow>
     isVerified (surveyResponses (run env cs s) rid) \<and>
     decryptedAnswer (surveyResponses (run env cs s) rid) = decryptedAnswer (surveyResponses s rid)"
proof (induction cs arbitrary: s)
  case Nil
  then show ?case by (simp add: run_Nil)
next
  case (Cons c cs)
  have inv: "ledger_inv env s" by (rule reachable_inv [OF pt Cons.prems(1)])
  note k = verified_kept [OF inv Cons.prems(3), of c]
  have r: "reachable env (apply_call env s c)"
    using Cons.prems by (simp add: reachable_call)
  have "isVerified (surveyResponses (run env cs (apply_call env s c)) rid) \<and>
     decryptedAnswer (surveyResponses (run env cs (apply_call env s c)) rid) =
       decryptedAnswer (surveyResponses (apply_call env s c) rid)"
    using Cons.prems k by (intro Cons.IH [OF r]) simp_all
  then show ?case using k by (simp add: run_Cons)
qed

lemma verify_verified:
  assumes "presence_test env" "reachable env s" "isVerified (surveyResponses s rid)"
  shows "verifyDecryption env rid payload prf s = Inl AlreadyVerified"
proof -
  have "ledger_inv env s" by (rule reachable_inv [OF assms(1,2)])
  then have "length (bytesOfAddress env (respondent (surveyResponses s rid))) > 0"
    using assms(3) by (simp add: ledger_inv_def stored_def)
  then show ?thesis using assms(3) by (simp add: verifyDecryption_def)
qed

lemma apply_call_Verify_Inr:
  "verifyDecryption env r payload prf s = Inr s' \<Longrightarrow> apply_call env s (Verify r payload prf) = s'"
  by (simp add: apply_call_def)

lemma verifications_verified:
  assumes pt: "presence_test env"
  shows "reachable env s \<Longrightarrow> list_all sender_nonzero cs \<Longrightarrow> isVerified (surveyResponses s rid) \<Longrightarrow>
     verifications env rid cs s = 0"
proof (induction cs arbitrary: s)
  case Nil
  show ?case by simp
next
  case (Cons c cs)
  have inv: "ledger_inv env s" by (rule reachable_inv [OF pt Cons.prems(1)])
  have r: "reachable env (apply_call env s c)"
    using Cons.prems by (simp add: reachable_call)
  have v: "isVerified (surveyResponses (apply_call env s c) rid)"
    using verified_kept [OF inv Cons.prems(3), of c] by simp
  have cs: "list_all sender_nonzero cs" using Cons.prems by simp
  have ih: "verifications env rid cs (apply_call env s c) = 0"
    by (rule Cons.IH [OF r cs v])
  show ?case
  proof (cases c)
    case (Submit ctx r enc pf md)
    then show ?thesis using ih by simp
  next
    case (Verify r payload pf)
    show ?thesis
    proof (cases "verifyDecryption env r payload pf s")
      case (Inl e)
      then show ?thesis using Verify ih by (simp add: apply_call_def)
    next
      case (Inr s')
      have "r \<noteq> rid"
        using verify_verified [OF pt Cons.prems(1) Cons.prems(3), of payload pf] Inr by auto
      then show ?thesis using Verify Inr ih by (simp add: apply_call_def)
    qed
  qed
qed

lemma verifications_le_1:
  assumes pt: "presence_test env"
  shows "reachable env s \<Longrightarrow> list_all sender_nonzero cs \<Longrightarrow> verifications env rid cs s \<le> 1"
proof (induction cs arbitrary: s)
  case Nil
  show ?case by simp
next
  case (Cons c cs)
  have r: "reachable env (apply_call env s c)"
    using Cons.prems by (simp add: reachable_call)
  have cs: "list_all sender_nonzero cs" using Cons.prems by simp
  have ih: "verifications env rid cs (apply_call env s c) \<le> 1"
    by (rule Cons.IH [OF r cs])
  show ?case
  proof (cases c)
    case (Submit ctx r enc pf md)
    then show ?thesis using ih by simp
  next
    case (Verify r payload pf)
    show ?thesis
    proof (cases "verifyDecryption env r payload pf s")
      case (Inl e)
      then show ?thesis using Verify ih by (simp add: apply_call_def)
    next
      case (Inr s')
      have a: "apply_call env s c = s'" using Verify Inr by (simp add: apply_call_def)
      show ?thesis
      proof (cases "r = rid")
        case False
        then show ?thesis using Verify Inr ih a by simp
      next
        case True
        have "isVerified (surveyResponses s' rid)"
          using verifyDecryption_Inr [OF Inr] True by auto
        then have "verifications env rid cs s' = 0"
          using verifications_verified [OF pt _ cs] r a by simp
        then show ?thesis using Verify Inr True by simp
      qed
    qed
  qed
qed

text \<open>
  Claim C2. On a reachable ledger, under \<open>presence_test\<close>: once the response of an
  id is verified, then after any further calls a verification of that id fails with
  \<open>AlreadyVerified\<close>, the failed call changes nothing, and the response is still
  verified with the plaintext it had. Among any calls, at most one verification of a
  given id succeeds, and none if the id was verified before.
\<close>

theorem verifyDecryption_at_most_once:
  assumes "presence_test env" and "reachable env s" and "list_all sender_nonzero cs"
  shows "(isVerified (surveyResponses s rid) \<longrightarrow>
            verifyDecryption env rid payload prf (run env cs s) = Inl AlreadyVerified \<and>
            apply_call env (run env cs s) (Verify rid payload prf) = run env cs s \<and>
            isVerified (surveyResponses (run env cs s) rid) \<and>
            decryptedAnswer (surveyResponses (run env cs s) rid) =
              decryptedAnswer (surveyResponses s rid) \<and>
            verifications env rid cs s = 0) \<and>
         verifications env rid cs s \<le> 1"
proof (intro conjI impI)
  assume v: "isVerified (surveyResponses s rid)"
  note k = verified_kept_run [OF assms v]
  have r: "reachable env (run env cs s)" by (rule reachable_run [OF assms(2,3)])
  show a: "verifyDecryption env rid payload prf (run env cs s) = Inl AlreadyVerified"
    using k by (intro verify_verified [OF assms(1) r]) simp
  show "apply_call env (run env cs s) (Verify rid payload prf) = run env cs s"
    by (simp add: apply_call_def a)
  show "isVerified (surveyResponses (run env cs s) rid)" using k by simp
  show "decryptedAnswer (surveyResponses (run env cs s) rid) =
              decryptedAnswer (surveyResponses s rid)" using k by simp
  show "verifications env rid cs s = 0" by (rule verifications_verified [OF assms v])
next
  show "verifications env rid cs s \<le> 1" by (rule verifications_le_1 [OF assms])
qed

theorem verifyDecryption_at_most_once_witness:
  "presence_test sample_env \<and> reachable sample_env survey \<and>
   list_all sender_nonzero
     [Verify ''r1'' (abi_encode_uint32 99) [1], Submit alice ''r9'' 19 [1] 0,
      Verify ''r3'' (abi_encode_uint32 7) [1]] \<and>
   isVerified (surveyResponses survey ''r1'') \<and>
   decryptedAnswer (surveyResponses survey ''r1'') = 3 \<and>
   verifyDecryption sample_env ''r1'' (abi_encode_uint32 50) [1]
     (run sample_env
        [Verify ''r1'' (abi_encode_uint32 99) [1], Submit alice ''r9'' 19 [1] 0,
         Verify ''r3'' (abi_encode_uint32 7) [1]] survey) = Inl AlreadyVerified \<and>
   decryptedAnswer (surveyResponses (run sample_env
        [Verify ''r1'' (abi_encode_uint32 99) [1], Submit alice ''r9'' 19 [1] 0,
         Verify ''r3'' (abi_encode_uint32 7) [1]] survey) ''r1'') = 3 \<and>
   verifications sample_env ''r3''
        [Verify ''r1'' (abi_encode_uint32 99) [1], Submit alice ''r9'' 19 [1] 0,
         Verify ''r3'' (abi_encode_uint32 7) [1]] survey = 1"
proof -
  let ?cs = "[Verify ''r1'' (abi_encode_uint32 99) [1], Submit alice ''r9'' 19 [1] 0,
      Verify ''r3'' (abi_encode_uint32 7) [1]]"
  have nz: "list_all sender_nonzero ?cs" by (simp add: alice_def)
  have v: "isVerified (surveyResponses survey ''r1'')"
    and d: "decryptedAnswer (surveyResponses survey ''r1'') = 3"
    by (simp_all add: survey_def sample_run)
  have n: "verifications sample_env ''r3'' ?cs survey = 1"
    by (simp add: survey_def sample_run)
  note t = verifyDecryption_at_most_once
    [OF presence_test_sample reachable_sample(1) nz, of "''r1''" "abi_encode_uint32 50" "[1]",
     THEN conjunct1, THEN mp, OF v]
  from t have a: "verifyDecryption sample_env ''r1'' (abi_encode_uint32 50) [1]
     (run sample_env ?cs survey) = Inl AlreadyVerified" by (rule conjunct1)
  from t have b: "decryptedAnswer (surveyResponses (run sample_env ?cs survey) ''r1'') = 3"
    using d by simp
  show ?thesis
    using presence_test_sample reachable_sample(1) nz v d a b n by (intro conjI)
qed

text \<open>
  Claim C1. On a reachable ledger, under \<open>presence_test\<close>, for every call and every
  id: a verified response stays verified and keeps its plaintext; a response that is
  not verified has plaintext zero; if the call changes the verified flag or the
  plaintext of the id, then the flag went from false to true and the call was a
  successful \<open>verifyDecryption\<close> of that id; right after a successful
  \<open>submitResponse\<close> of the id the record is not verified, its plaintext is zero, and
  \<open>getResponse\<close> returns it so.
\<close>

theorem verified_flag_and_plaintext_write_once:
  assumes "presence_test env" and "reachable env s" and "sender_nonzero c"
  shows "(isVerified (surveyResponses s rid) \<longrightarrow>
            isVerified (surveyResponses (apply_call env s c) rid) \<and>
            decryptedAnswer (surveyResponses (apply_call env s c) rid) =
              decryptedAnswer (surveyResponses s rid)) \<and>
         (\<not> isVerified (surveyResponses s rid) \<longrightarrow> decryptedAnswer (surveyResponses s rid) = 0) \<and>
         (isVerified (surveyResponses (apply_call env s c) rid) \<noteq> isVerified (surveyResponses s rid) \<or>
          decryptedAnswer (surveyResponses (apply_call env s c) rid) \<noteq>
            decryptedAnswer (surveyResponses s rid) \<longrightarrow>
            \<not> isVerified (surveyResponses s rid) \<and>
            isVerified (surveyResponses (apply_call env s c) rid) \<and>
            (\<exists>payload prf. c = Verify rid payload prf \<and>
               verifyDecryption env rid payload prf s = Inr (apply_call env s c))) \<and>
         (\<forall>ctx enc prf md s'. c = Submit ctx rid enc prf md \<and>
            submitResponse env ctx rid enc prf md s = Inr s' \<longrightarrow>
            \<not> isVerified (surveyResponses s' rid) \<and> decryptedAnswer (surveyResponses s' rid) = 0 \<and>
            getResponse env rid s' = Inr (md, msg_sender ctx, block_timestamp ctx, False, 0))"
proof -
  have inv: "ledger_inv env s" by (rule reachable_inv [OF assms(1,2)])
  have zero: "\<And>r. \<not> isVerified (surveyResponses s r) \<Longrightarrow> decryptedAnswer (surveyResponses s r) = 0"
    using inv by (simp add: ledger_inv_def)
  have unstored: "\<And>r. length (bytesOfAddress env (respondent (surveyResponses s r))) = 0 \<Longrightarrow>
      \<not> isVerified (surveyResponses s r)"
    using inv by (auto simp add: ledger_inv_def stored_def)
  have kept: "isVerified (surveyResponses s rid) \<Longrightarrow>
            isVerified (surveyResponses (apply_call env s c) rid) \<and>
            decryptedAnswer (surveyResponses (apply_call env s c) rid) =
              decryptedAnswer (surveyResponses s rid)"
    by (rule verified_kept [OF inv])
  have fresh: "\<forall>ctx enc prf md s'. c = Submit ctx rid enc prf md \<and>
            submitResponse env ctx rid enc prf md s = Inr s' \<longrightarrow>
            \<not> isVerified (surveyResponses s' rid) \<and> decryptedAnswer (surveyResponses s' rid) = 0 \<and>
            getResponse env rid s' = Inr (md, msg_sender ctx, block_timestamp ctx, False, 0)"
  proof (intro allI impI)
    fix ctx enc pf md s'
    assume h: "c = Submit ctx rid enc pf md \<and> submitResponse env ctx rid enc pf md s = Inr s'"
    then have nz: "msg_sender ctx \<noteq> 0" using assms(3) by simp
    then have len: "bytesOfAddress env (msg_sender ctx) \<noteq> []"
      using presence_testD [OF assms(1), of "msg_sender ctx"] by simp
    from h have ok: "submitResponse env ctx rid enc pf md s = Inr s'" by simp
    from submitResponse_Inr [OF ok] len
    show "\<not> isVerified (surveyResponses s' rid) \<and> decryptedAnswer (surveyResponses s' rid) = 0 \<and>
            getResponse env rid s' = Inr (md, msg_sender ctx, block_timestamp ctx, False, 0)"
      by (auto simp add: getResponse_def)
  qed
  have change: "isVerified (surveyResponses (apply_call env s c) rid) \<noteq> isVerified (surveyResponses s rid) \<or>
          decryptedAnswer (surveyResponses (apply_call env s c) rid) \<noteq>
            decryptedAnswer (surveyResponses s rid) \<Longrightarrow>
            \<not> isVerified (surveyResponses s rid) \<and>
            isVerified (surveyResponses (apply_call env s c) rid) \<and>
            (\<exists>payload prf. c = Verify rid payload prf \<and>
               verifyDecryption env rid payload prf s = Inr (apply_call env s c))"
  proof (cases c)
    case (Submit ctx r enc pf md)
    assume ch: "isVerified (surveyResponses (apply_call env s c) rid) \<noteq> isVerified (surveyResponses s rid) \<or>
          decryptedAnswer (surveyResponses (apply_call env s c) rid) \<noteq>
            decryptedAnswer (surveyResponses s rid)"
    show ?thesis
    proof (cases "submitResponse env ctx r enc pf md s")
      case (Inl e)
      then have "apply_call env s c = s" using Submit by (simp add: apply_call_def)
      with ch show ?thesis by simp
    next
      case (Inr s')
      then have a: "apply_call env s c = s'" using Submit by (simp add: apply_call_def)
      note r = submitResponse_Inr [OF Inr]
      have "isVerified (surveyResponses s' rid) = isVerified (surveyResponses s rid) \<and>
            decryptedAnswer (surveyResponses s' rid) = decryptedAnswer (surveyResponses s rid)"
      proof (cases "r = rid")
        case True
        then have nv: "\<not> isVerified (surveyResponses s rid)" using r unstored by blast
        then have "decryptedAnswer (surveyResponses s rid) = 0" by (rule zero)
        then show ?thesis using r nv True by auto
      next
        case False
        then show ?thesis using r by auto
      qed
      with ch a show ?thesis by simp
    qed
  next
    case (Verify r payload pf)
    assume ch: "isVerified (surveyResponses (apply_call env s c) rid) \<noteq> isVerified (surveyResponses s rid) \<or>
          decryptedAnswer (surveyResponses (apply_call env s c) rid) \<noteq>
            decryptedAnswer (surveyResponses s rid)"
    show ?thesis
    proof (cases "verifyDecryption env r payload pf s")
      case (Inl e)
      then have "apply_call env s c = s" using Verify by (simp add: apply_call_def)
      with ch show ?thesis by simp
    next
      case (Inr s')
      then have a: "apply_call env s c = s'" using Verify by (simp add: apply_call_def)
      note v = verifyDecryption_Inr [OF Inr]
      have eq: "r = rid"
      proof (rule ccontr)
        assume "r \<noteq> rid"
        then have "surveyResponses s' rid = surveyResponses s rid" using v by auto
        with ch a show False by simp
      qed
      have "isVerified (surveyResponses s' rid)" using v eq by auto
      then show ?thesis using v eq a Verify Inr by auto
    qed
  qed
  show ?thesis using kept zero [of rid] change fresh by blast
qed

theorem verified_flag_and_plaintext_write_once_witness:
  "presence_test sample_env \<and> reachable sample_env survey \<and> reachable sample_env pending \<and>
   sender_nonzero (Verify ''r1'' (abi_encode_uint32 99) [1]) \<and>
   isVerified (surveyResponses survey ''r1'') \<and>
   decryptedAnswer (surveyResponses survey ''r1'') = 3 \<and>
   isVerified (surveyResponses
       (apply_call sample_env survey (Verify ''r1'' (abi_encode_uint32 99) [1])) ''r1'') \<and>
   decryptedAnswer (surveyResponses
       (apply_call sample_env survey (Verify ''r1'' (abi_encode_uint32 99) [1])) ''r1'') = 3 \<and>
   sender_nonzero (Verify ''p1'' (abi_encode_uint32 42) [1]) \<and>
   \<not> isVerified (surveyResponses pending ''p1'') \<and>
   decryptedAnswer (surveyResponses pending ''p1'') = 0 \<and>
   isVerified (surveyResponses
       (apply_call sample_env pending (Verify ''p1'' (abi_encode_uint32 42) [1])) ''p1'') \<and>
   decryptedAnswer (surveyResponses
       (apply_call sample_env pending (Verify ''p1'' (abi_encode_uint32 42) [1])) ''p1'') = 42 \<and>
   sender_nonzero (Submit alice ''p3'' 77 [1] 5) \<and>
   (\<exists>s'. submitResponse sample_env alice ''p3'' 77 [1] 5 pending = Inr s' \<and>
         \<not> isVerified (surveyResponses s' ''p3'') \<and>
         decryptedAnswer (surveyResponses s' ''p3'') = 0 \<and>
         getResponse sample_env ''p3'' s' =
           Inr (5, msg_sender alice, block_timestamp alice, False, 0))"
proof -
  have nz1: "sender_nonzero (Verify ''r1'' (abi_encode_uint32 99) [1])"
    and nz2: "sender_nonzero (Verify ''p1'' (abi_encode_uint32 42) [1])"
    and nz3: "sender_nonzero (Submit alice ''p3'' 77 [1] 5)"
    by (simp_all add: alice_def)
  have v: "isVerified (surveyResponses survey ''r1'')"
    and d: "decryptedAnswer (surveyResponses survey ''r1'') = 3"
    by (simp_all add: survey_def sample_run)
  have nv: "\<not> isVerified (surveyResponses pending ''p1'')"
    by (simp add: pending_def sample_run)
  from verified_flag_and_plaintext_write_once
    [OF presence_test_sample reachable_sample(1) nz1, of "''r1''", THEN conjunct1, THEN mp, OF v]
  have kept: "isVerified (surveyResponses
       (apply_call sample_env survey (Verify ''r1'' (abi_encode_uint32 99) [1])) ''r1'') \<and>
     decryptedAnswer (surveyResponses
       (apply_call sample_env survey (Verify ''r1'' (abi_encode_uint32 99) [1])) ''r1'') = 3"
    using d by simp
  from verified_flag_and_plaintext_write_once
    [OF presence_test_sample reachable_sample(4) nz2, of "''p1''",
     THEN conjunct2, THEN conjunct1, THEN mp, OF nv]
  have z: "decryptedAnswer (surveyResponses pending ''p1'') = 0" .
  have after: "isVerified (surveyResponses
       (apply_call sample_env pending (Verify ''p1'' (abi_encode_uint32 42) [1])) ''p1'') \<and>
     decryptedAnswer (surveyResponses
       (apply_call sample_env pending (Verify ''p1'' (abi_encode_uint32 42) [1])) ''p1'') = 42"
    by (simp add: pending_def sample_run)
  have "\<exists>s'. submitResponse sample_env alice ''p3'' 77 [1] 5 pending = Inr s'"
    by (simp add: pending_def sample_run)
  then obtain s' where s': "submitResponse sample_env alice ''p3'' 77 [1] 5 pending = Inr s'" ..
  from verified_flag_and_plaintext_write_once
    [OF presence_test_sample reachable_sample(4) nz3, of "''p3''",
     THEN conjunct2, THEN conjunct2, THEN conjunct2] s'
  have "\<not> isVerified (surveyResponses s' ''p3'') \<and> decryptedAnswer (surveyResponses s' ''p3'') = 0 \<and>
         getResponse sample_env ''p3'' s' =
           Inr (5, msg_sender alice, block_timestamp alice, False, 0)"
    by blast
  with s' have sub: "\<exists>s'. submitResponse sample_env alice ''p3'' 77 [1] 5 pending = Inr s' \<and>
         \<not> isVerified (surveyResponses s' ''p3'') \<and>
         decryptedAnswer (surveyResponses s' ''p3'') = 0 \<and>
         getResponse sample_env ''p3'' s' =
           Inr (5, msg_sender alice, block_timestamp alice, False, 0)" by blast
  show ?thesis
    using presence_test_sample reachable_sample(1) reachable_sample(4) nz1 nz2 nz3 v d nv z
      kept after sub
    by (intro conjI) simp_all
qed

end
